theory Spec2Isabelle
  imports Main
begin

section \<open>Library management: the borrow / return / renew workflow\<close>

text \<open>
  A shallow embedding of the transaction workflow of the library application:
  \<^verbatim>\<open>routes/books.py\<close> (\<^verbatim>\<open>borrow\<close>), \<^verbatim>\<open>routes/user.py\<close> (\<^verbatim>\<open>return_book\<close>,
  \<^verbatim>\<open>renew_book\<close>, \<^verbatim>\<open>fines\<close>, \<^verbatim>\<open>pay_fine\<close>, \<^verbatim>\<open>verify_transaction_code\<close>) and
  \<^verbatim>\<open>email_service.py\<close> (\<^verbatim>\<open>create_transaction_verification\<close>).

  Conventions of the embedding.
  \<^item> The database is a record of tables. A table is the list of its rows in insertion
    order and the primary key of a row is its position, so \<^verbatim>\<open>Query.get(id)\<close> is a bounds
    checked read and \<^verbatim>\<open>filter_by(...).first()\<close> is the first row that satisfies the filter.
  \<^item> A \<^verbatim>\<open>datetime\<close> is an integer number of seconds; \<^verbatim>\<open>datetime.utcnow()\<close> is the
    argument \<open>now\<close> of a request.
  \<^item> The random code drawn by \<^verbatim>\<open>generate_verification_code\<close> is an argument of the
    request that creates it.
  \<^item> A request returns the message it flashes (or the 404 it aborts with) together with the
    database it leaves behind. A rollback returns the database of the last commit.
  \<^item> Sending e-mail never touches the tables of the workflow and every send is wrapped in
    \<^verbatim>\<open>try/except\<close>; it is left out. The texts of titles and messages are left out as well.
\<close>

subsection \<open>Dates\<close>

type_synonym datetime = int

definition timedelta :: "int \<Rightarrow> int \<Rightarrow> int" where
  \<comment> \<open>\<^verbatim>\<open>timedelta(days=d, hours=h)\<close> in seconds\<close>
  "timedelta d h = d * 86400 + h * 3600"

definition date_of :: "datetime \<Rightarrow> int" where
  \<comment> \<open>\<^verbatim>\<open>t.date()\<close> as a day number; the difference of two dates is a number of whole days\<close>
  "date_of t = t div 86400"

subsection \<open>Tables\<close>

datatype borrowing_status = Pending | PendingVerification | Borrowed | PendingReturn | Returned

datatype reservation_status = RPending | Fulfilled | Cancelled | Expired

datatype transaction_type = TBorrow | TReturn | TRenew

datatype notification_type = NBorrow | NReservation | NRenewal

record book =
  total_copies :: int
  available_copies :: int

record borrowing =
  b_user_id :: nat
  b_book_id :: nat
  b_status :: borrowing_status
  borrow_date :: datetime
  due_date :: datetime
  return_date :: "datetime option"
  renewed_count :: int
  fine_amount :: int
  fine_paid :: bool

record reservation =
  r_user_id :: nat
  r_book_id :: nat
  r_status :: reservation_status
  r_created_at :: datetime
  expiry_date :: "datetime option"
  notified :: bool

record verification =
  v_user_id :: nat
  borrowing_id :: nat
  transaction_type :: transaction_type
  verification_code :: string
  expires_at :: datetime
  is_verified :: bool
  verified_at :: "datetime option"

record notification =
  n_user_id :: nat
  n_type :: notification_type
  related_id :: "nat option"

record db =
  books :: "book list"
  borrowings :: "borrowing list"
  reservations :: "reservation list"
  verifications :: "verification list"
  notifications :: "notification list"

text \<open>
  The logged-in user. \<^verbatim>\<open>User.can_borrow()\<close> and \<^verbatim>\<open>User.get_total_fine()\<close> are methods of the
  model class, which is not among the sources; the values they return to the request are
  taken as given.
\<close>

record user =
  uid :: nat
  can_borrow :: bool
  get_total_fine :: int

datatype outcome =
    NotFound
  | BookNotAvailable | ClearFines | LimitReached | AlreadyBorrowed | BorrowSubmitted
  | ReturnRequested
  | Renewed | CannotRenewOverdue | RenewalLimit | UnableToRenew | ServerError
  | FinePaid int | NoFineToPay
  | EnterCode | CodeLength | InvalidCode | AlreadyVerified | CodeExpired
  | NoLongerAvailable | VerifiedOk transaction_type | FinalizeError

subsection \<open>Queries\<close>

definition lookup :: "'a list \<Rightarrow> nat \<Rightarrow> 'a option" where
  "lookup xs i = (if i < length xs then Some (xs ! i) else None)"

primrec first_index :: "('a \<Rightarrow> bool) \<Rightarrow> 'a list \<Rightarrow> nat option" where
  "first_index P [] = None"
| "first_index P (x # xs) = (if P x then Some 0 else map_option Suc (first_index P xs))"

definition next_reservation :: "reservation list \<Rightarrow> nat \<Rightarrow> nat option" where
  \<comment> \<open>\<^verbatim>\<open>Reservation.query.filter_by(book_id=.., status='pending').order_by(created_at).first()\<close>\<close>
  "next_reservation rs bk =
     (case sort_key (\<lambda>i. r_created_at (rs ! i))
             (filter (\<lambda>i. r_book_id (rs ! i) = bk \<and> r_status (rs ! i) = RPending) [0..<length rs]) of
        [] \<Rightarrow> None
      | i # _ \<Rightarrow> Some i)"

subsection \<open>Methods of the model classes\<close>

text \<open>
  Modelled from the spec: \<^verbatim>\<open>Book.is_available()\<close> is defined in the model module, which is not
  among the sources. The spec (4.1) reads "the book has available_copies > 0".
\<close>

definition is_available :: "book \<Rightarrow> bool" where
  "is_available bk = (available_copies bk > 0)"

text \<open>
  Modelled from the spec: \<^verbatim>\<open>TransactionVerification.is_expired()\<close> is defined in the model
  module, which is not among the sources. The spec (4.4, step 4) reads "expires_at < now".
\<close>

definition is_expired :: "verification \<Rightarrow> datetime \<Rightarrow> bool" where
  "is_expired v now = (expires_at v < now)"

text \<open>
  Modelled from the spec: \<^verbatim>\<open>Borrowing.calculate_fine()\<close> is defined in the model module, which
  is not among the sources. The spec (4.4) reads "days_overdue = floor(now.date() - due_date.date())
  in whole days; fine = days_overdue * fine_per_day (default 5), floored at 0 for non-overdue".
\<close>

definition fine_per_day :: int where
  "fine_per_day = 5"

definition calculate_fine :: "borrowing \<Rightarrow> datetime \<Rightarrow> int" where
  "calculate_fine b now = max 0 (date_of now - date_of (due_date b)) * fine_per_day"

text \<open>
  Modelled from the spec: \<^verbatim>\<open>Borrowing.is_overdue()\<close>, \<^verbatim>\<open>Borrowing.can_renew()\<close> and
  \<^verbatim>\<open>Borrowing.renew()\<close> are defined in the model module, which is not among the sources. The
  spec (4.3) reads "a Borrowing may renew if (a) it is not overdue (due_date >= now) and (b)
  renewed_count < 2. On success, extend due_date by 14 days from the original due date and
  increment renewed_count". \<^verbatim>\<open>renew()\<close> returns whether it renewed.
\<close>

definition is_overdue :: "borrowing \<Rightarrow> datetime \<Rightarrow> bool" where
  "is_overdue b now = (due_date b < now)"

definition can_renew :: "borrowing \<Rightarrow> datetime \<Rightarrow> bool" where
  "can_renew b now = (\<not> is_overdue b now \<and> renewed_count b < 2)"

definition renew :: "borrowing \<Rightarrow> datetime \<Rightarrow> bool \<times> borrowing" where
  "renew b now =
     (if can_renew b now
      then (True, b\<lparr>due_date := due_date b + timedelta 14 0, renewed_count := renewed_count b + 1\<rparr>)
      else (False, b))"

subsection \<open>\<^verbatim>\<open>email_service.create_transaction_verification\<close>\<close>

definition create_transaction_verification ::
  "nat \<Rightarrow> nat \<Rightarrow> transaction_type \<Rightarrow> string \<Rightarrow> datetime \<Rightarrow> verification" where
  "create_transaction_verification u bi tt code now =
     \<lparr>v_user_id = u, borrowing_id = bi, transaction_type = tt, verification_code = code,
      expires_at = now + timedelta 0 24, is_verified = False, verified_at = None\<rparr>"

subsection \<open>\<^verbatim>\<open>books.borrow\<close>\<close>

text \<open>
  The route constructs the borrowing with \<^verbatim>\<open>user_id\<close>, \<^verbatim>\<open>book_id\<close>, \<^verbatim>\<open>due_date\<close> and
  \<^verbatim>\<open>status\<close> only. The other columns take the defaults of the model class, which is not among
  the sources: the borrow date is taken to be the time of the request, the return date to be
  empty, the renewal count and the fine to be 0. The same holds for \<^verbatim>\<open>is_verified\<close> and
  \<^verbatim>\<open>verified_at\<close> of a new verification row.
\<close>

definition borrow :: "db \<Rightarrow> user \<Rightarrow> nat \<Rightarrow> datetime \<Rightarrow> string \<Rightarrow> outcome \<times> db" where
  "borrow s cu bid now code =
     (case lookup (books s) bid of
        None \<Rightarrow> (NotFound, s)
      | Some bk \<Rightarrow>
          if \<not> is_available bk then (BookNotAvailable, s)
          else if \<not> can_borrow cu then
            (if get_total_fine cu > 0 then ClearFines else LimitReached, s)
          else
            (case first_index
                    (\<lambda>b. b_user_id b = uid cu \<and> b_book_id b = bid \<and> b_status b = Borrowed)
                    (borrowings s) of
               Some _ \<Rightarrow> (AlreadyBorrowed, s)
             | None \<Rightarrow>
                 let bi = length (borrowings s);
                     b = \<lparr>b_user_id = uid cu, b_book_id = bid, b_status = Pending,
                          borrow_date = now, due_date = now + timedelta 14 0,
                          return_date = None, renewed_count = 0, fine_amount = 0,
                          fine_paid = False\<rparr>;
                     rs = (case first_index
                                  (\<lambda>r. r_user_id r = uid cu \<and> r_book_id r = bid \<and>
                                       r_status r = RPending)
                                  (reservations s) of
                             None \<Rightarrow> reservations s
                           | Some ri \<Rightarrow>
                               (reservations s)[ri := (reservations s ! ri)\<lparr>r_status := Fulfilled\<rparr>])
                 in (BorrowSubmitted,
                     s\<lparr>borrowings := borrowings s @ [b],
                       reservations := rs,
                       notifications := notifications s @
                         [\<lparr>n_user_id = uid cu, n_type = NBorrow, related_id = Some bi\<rparr>],
                       verifications := verifications s @
                         [create_transaction_verification (uid cu) bi TBorrow code now]\<rparr>)))"

subsection \<open>\<^verbatim>\<open>user.return_book\<close> and \<^verbatim>\<open>user.renew_book\<close>\<close>

definition return_book :: "db \<Rightarrow> nat \<Rightarrow> nat \<Rightarrow> datetime \<Rightarrow> string \<Rightarrow> outcome \<times> db" where
  "return_book s u bi now code =
     (case lookup (borrowings s) bi of
        None \<Rightarrow> (NotFound, s)
      | Some b \<Rightarrow>
          if b_user_id b \<noteq> u \<or> b_status b \<noteq> Borrowed then (NotFound, s)
          else
            (ReturnRequested,
             s\<lparr>verifications := verifications s @
                 [create_transaction_verification u bi TReturn code now],
               borrowings := (borrowings s)[bi := b\<lparr>b_status := PendingReturn\<rparr>]\<rparr>))"

definition renew_book :: "db \<Rightarrow> nat \<Rightarrow> nat \<Rightarrow> datetime \<Rightarrow> string \<Rightarrow> outcome \<times> db" where
  "renew_book s u bi now code =
     (case lookup (borrowings s) bi of
        None \<Rightarrow> (NotFound, s)
      | Some b \<Rightarrow>
          if b_user_id b \<noteq> u \<or> b_status b \<noteq> Borrowed then (NotFound, s)
          else
            (case renew b now of
               (True, b') \<Rightarrow>
                 let s1 = s\<lparr>borrowings := (borrowings s)[bi := b']\<rparr> in
                 if b_book_id b < length (books s) then
                   (Renewed,
                    s1\<lparr>notifications := notifications s @
                         [\<lparr>n_user_id = u, n_type = NRenewal, related_id = Some bi\<rparr>],
                       verifications := verifications s @
                         [create_transaction_verification u bi TRenew code now]\<rparr>)
                 else (ServerError, s1)
             | (False, _) \<Rightarrow>
                 (if is_overdue b now then CannotRenewOverdue
                  else if renewed_count b \<ge> 2 then RenewalLimit
                  else UnableToRenew, s)))"

subsection \<open>\<^verbatim>\<open>user.fines\<close> and \<^verbatim>\<open>user.pay_fine\<close>\<close>

definition days_overdue :: "borrowing \<Rightarrow> datetime \<Rightarrow> int" where
  \<comment> \<open>\<^verbatim>\<open>(datetime.utcnow().date() - borrowing.due_date.date()).days\<close>\<close>
  "days_overdue b now = date_of now - date_of (due_date b)"

definition outstanding_fines :: "db \<Rightarrow> nat \<Rightarrow> datetime \<Rightarrow> (borrowing \<times> int \<times> int) list" where
  "outstanding_fines s u now =
     map (\<lambda>b. (b, days_overdue b now, days_overdue b now * 5))
       (filter (\<lambda>b. b_user_id b = u \<and> return_date b = None \<and> due_date b < now) (borrowings s))"

definition total_fines :: "db \<Rightarrow> nat \<Rightarrow> datetime \<Rightarrow> int" where
  "total_fines s u now = sum_list (map (\<lambda>(b, d, a). a) (outstanding_fines s u now))"

definition pay_fine :: "db \<Rightarrow> nat \<Rightarrow> nat \<Rightarrow> datetime \<Rightarrow> outcome \<times> db" where
  "pay_fine s u fine_id now =
     (case lookup (borrowings s) fine_id of
        None \<Rightarrow> (NotFound, s)
      | Some b \<Rightarrow>
          if b_user_id b \<noteq> u then (NotFound, s)
          else if return_date b = None \<and> due_date b < now then
            (let amount = days_overdue b now * 5 in
             (FinePaid amount,
              s\<lparr>borrowings := (borrowings s)[fine_id := b\<lparr>fine_amount := amount, fine_paid := True\<rparr>]\<rparr>))
          else (NoFineToPay, s))"

subsection \<open>\<^verbatim>\<open>user.verify_transaction_code\<close>\<close>

text \<open>
  \<^verbatim>\<open>request.form.get('verification_code', '').strip().upper()\<close>. A string of the model is a
  list of 8-bit characters and the two methods are modelled on ASCII input only: the six ASCII
  white space characters and the four separators below the space that \<^verbatim>\<open>strip\<close> removes, and
  the letters a to z that \<^verbatim>\<open>upper\<close> changes. On other input Python's methods do more (they
  also strip U+0085, U+00A0 and the other Unicode spaces, and map further letters, some to two
  characters), which the model does not follow. No property below depends on what the two
  functions compute: they are only evaluated on the ASCII codes of the scenarios.
\<close>

definition is_space :: "char \<Rightarrow> bool" where
  "is_space c = (let n = (of_char c :: nat) in (9 \<le> n \<and> n \<le> 13) \<or> (28 \<le> n \<and> n \<le> 32))"

definition strip :: "string \<Rightarrow> string" where
  "strip cs = rev (dropWhile is_space (rev (dropWhile is_space cs)))"

definition upper_char :: "char \<Rightarrow> char" where
  "upper_char c = (let n = (of_char c :: nat) in if 97 \<le> n \<and> n \<le> 122 then char_of (n - 32) else c)"

definition upper :: "string \<Rightarrow> string" where
  "upper cs = map upper_char cs"

definition find_verification :: "db \<Rightarrow> nat \<Rightarrow> string \<Rightarrow> nat option" where
  \<comment> \<open>\<^verbatim>\<open>TransactionVerification.query.filter_by(user_id=.., verification_code=code).first()\<close>\<close>
  "find_verification s u code =
     first_index (\<lambda>v. v_user_id v = u \<and> verification_code v = code) (verifications s)"

definition mark_verified :: "db \<Rightarrow> nat \<Rightarrow> datetime \<Rightarrow> db" where
  "mark_verified s vi now =
     s\<lparr>verifications :=
         (verifications s)[vi := (verifications s ! vi)\<lparr>is_verified := True, verified_at := Some now\<rparr>]\<rparr>"

definition commit_and_flash :: "db \<Rightarrow> transaction_type \<Rightarrow> borrowing \<Rightarrow> outcome \<times> db" where
  \<comment> \<open>the commit at the end of the \<^verbatim>\<open>try\<close> block, then the flash that reads \<^verbatim>\<open>borrowing.book.title\<close>:
      when the book is missing it raises after the commit, and the handler has nothing to roll back\<close>
  "commit_and_flash s tt b =
     (if b_book_id b < length (books s) then (VerifiedOk tt, s) else (FinalizeError, s))"

definition finalize_borrow :: "db \<Rightarrow> db \<Rightarrow> nat \<Rightarrow> nat \<Rightarrow> datetime \<Rightarrow> outcome \<times> db" where
  \<comment> \<open>\<open>s0\<close> is the database of the last commit, \<open>s\<close> the session with the code marked verified\<close>
  "finalize_borrow s0 s u bi now =
     (let b = borrowings s ! bi in
      if b_status b = Pending \<or> b_status b = PendingVerification then
        (case lookup (books s) (b_book_id b) of
           None \<Rightarrow> (FinalizeError, s0)
         | Some bk \<Rightarrow>
             if available_copies bk \<le> 0 then (NoLongerAvailable, s)
             else
               commit_and_flash
                 (s\<lparr>books := (books s)[b_book_id b := bk\<lparr>available_copies := available_copies bk - 1\<rparr>],
                    borrowings := (borrowings s)[bi := b\<lparr>b_status := Borrowed, borrow_date := now\<rparr>],
                    notifications := notifications s @
                      [\<lparr>n_user_id = u, n_type = NBorrow, related_id = Some bi\<rparr>]\<rparr>)
                 TBorrow b)
      else commit_and_flash s TBorrow b)"

definition finalize_return :: "db \<Rightarrow> db \<Rightarrow> nat \<Rightarrow> datetime \<Rightarrow> outcome \<times> db" where
  "finalize_return s0 s bi now =
     (let b = borrowings s ! bi in
      case lookup (books s) (b_book_id b) of
        None \<Rightarrow> (FinalizeError, s0)
      | Some bk \<Rightarrow>
          let b1 = b\<lparr>return_date := Some now\<rparr>;
              b2 = b1\<lparr>fine_amount := calculate_fine b1 now, b_status := Returned\<rparr>;
              s1 = s\<lparr>books := (books s)[b_book_id b := bk\<lparr>available_copies := available_copies bk + 1\<rparr>],
                     borrowings := (borrowings s)[bi := b2]\<rparr>
          in (case next_reservation (reservations s) (b_book_id b) of
                None \<Rightarrow> commit_and_flash s1 TReturn b
              | Some ri \<Rightarrow>
                  let r = reservations s ! ri in
                  commit_and_flash
                    (s1\<lparr>reservations := (reservations s)
                           [ri := r\<lparr>expiry_date := Some (now + timedelta 3 0), notified := True\<rparr>],
                        notifications := notifications s @
                          [\<lparr>n_user_id = r_user_id r, n_type = NReservation, related_id = None\<rparr>]\<rparr>)
                    TReturn b))"

definition finalize_renew :: "db \<Rightarrow> nat \<Rightarrow> datetime \<Rightarrow> outcome \<times> db" where
  "finalize_renew s bi now =
     (let b = borrowings s ! bi in
      if can_renew b now
      then commit_and_flash (s\<lparr>borrowings := (borrowings s)[bi := snd (renew b now)]\<rparr>) TRenew b
      else commit_and_flash s TRenew b)"

definition verify_transaction_code :: "db \<Rightarrow> nat \<Rightarrow> string \<Rightarrow> datetime \<Rightarrow> outcome \<times> db" where
  "verify_transaction_code s u raw now =
     (let code = upper (strip raw) in
      if code = [] then (EnterCode, s)
      else if length code \<noteq> 6 then (CodeLength, s)
      else
        (case find_verification s u code of
           None \<Rightarrow> (InvalidCode, s)
         | Some vi \<Rightarrow>
             let v = verifications s ! vi in
             if is_verified v then (AlreadyVerified, s)
             else if is_expired v now then (CodeExpired, s)
             else
               let s1 = mark_verified s vi now in
               if borrowing_id v < length (borrowings s) then
                 (case transaction_type v of
                    TBorrow \<Rightarrow> finalize_borrow s s1 u (borrowing_id v) now
                  | TReturn \<Rightarrow> finalize_return s s1 (borrowing_id v) now
                  | TRenew \<Rightarrow> finalize_renew s1 (borrowing_id v) now)
               else (FinalizeError, s)))"

subsection \<open>The workflow as a transition system\<close>

datatype op =
    Borrow user nat datetime string
  | ReturnBook nat nat datetime string
  | RenewBook nat nat datetime string
  | Verify nat string datetime

definition step :: "db \<Rightarrow> op \<Rightarrow> outcome \<times> db" where
  "step s o' =
     (case o' of
        Borrow cu bid now code \<Rightarrow> borrow s cu bid now code
      | ReturnBook u bi now code \<Rightarrow> return_book s u bi now code
      | RenewBook u bi now code \<Rightarrow> renew_book s u bi now code
      | Verify u raw now \<Rightarrow> verify_transaction_code s u raw now)"

primrec run :: "db \<Rightarrow> op list \<Rightarrow> db" where
  "run s [] = s"
| "run s (x # xs) = run (snd (step s x)) xs"

subsection \<open>Invariants of the copy counts\<close>

definition copies_in_range :: "db \<Rightarrow> bool" where
  "copies_in_range s =
     list_all (\<lambda>bk. 0 \<le> available_copies bk \<and> available_copies bk \<le> total_copies bk) (books s)"

definition holds_copy :: "nat \<Rightarrow> borrowing \<Rightarrow> int" where
  \<comment> \<open>a borrowing whose borrow has been finalised and whose return has not\<close>
  "holds_copy k b =
     (if b_book_id b = k \<and> (b_status b = Borrowed \<or> b_status b = PendingReturn) then 1 else 0)"

definition lent_out :: "borrowing list \<Rightarrow> nat \<Rightarrow> int" where
  "lent_out bs k = sum_list (map (holds_copy k) bs)"

definition copies_accounted :: "book list \<Rightarrow> borrowing list \<Rightarrow> bool" where
  \<comment> \<open>no copy count is negative, and the copies on the shelf and the copies lent out do not exceed the stock\<close>
  "copies_accounted bks bs =
     list_all (\<lambda>k. 0 \<le> available_copies (bks ! k) \<and>
                  available_copies (bks ! k) + lent_out bs k \<le> total_copies (bks ! k))
       [0..<length bks]"

definition open_return :: "verification \<Rightarrow> bool" where
  "open_return v = (transaction_type v = TReturn \<and> \<not> is_verified v)"

definition return_codes_sound :: "borrowing list \<Rightarrow> verification list \<Rightarrow> bool" where
  \<comment> \<open>an unconfirmed return code belongs to a borrowing that waits for it, and to it alone\<close>
  "return_codes_sound bs vs =
     (list_all (\<lambda>v. borrowing_id v < length bs \<and> b_status (bs ! borrowing_id v) = PendingReturn)
        (filter open_return vs) \<and>
      distinct (map borrowing_id (filter open_return vs)))"

definition consistent :: "db \<Rightarrow> bool" where
  "consistent s =
     (copies_accounted (books s) (borrowings s) \<and> return_codes_sound (borrowings s) (verifications s))"

definition copies_nonneg :: "db \<Rightarrow> bool" where
  "copies_nonneg s = list_all (\<lambda>bk. 0 \<le> available_copies bk) (books s)"

subsection \<open>Scenarios\<close>

text \<open>One book with a single copy and two readers who both ask for it.\<close>

definition one_copy :: db where
  "one_copy = \<lparr>books = [\<lparr>total_copies = 1, available_copies = 1\<rparr>], borrowings = [],
     reservations = [], verifications = [], notifications = []\<rparr>"

definition reader :: "nat \<Rightarrow> user" where
  "reader n = \<lparr>uid = n, can_borrow = True, get_total_fine = 0\<rparr>"


text \<open>The first reader has asked for the copy and holds an unconfirmed code.\<close>

definition requested :: db where
  "requested = run one_copy [Borrow (reader 1) 0 1000 ''ABC123'']"

text \<open>
  A borrowing that left the pending state by another route while its borrow code is still
  unconfirmed, and one in the state \<^verbatim>\<open>'pending_verification'\<close> that the finalisation of a borrow
  accepts next to \<^verbatim>\<open>'pending'\<close>.
\<close>

definition approved_elsewhere :: db where
  "approved_elsewhere =
     \<lparr>books = [\<lparr>total_copies = 2, available_copies = 1\<rparr>],
      borrowings = [\<lparr>b_user_id = 1, b_book_id = 0, b_status = Borrowed, borrow_date = 1000,
                     due_date = 1210600, return_date = None, renewed_count = 0, fine_amount = 0,
                     fine_paid = False\<rparr>],
      reservations = [],
      verifications = [create_transaction_verification 1 0 TBorrow ''ABC123'' 1000],
      notifications = []\<rparr>"

definition awaiting_verification :: db where
  "awaiting_verification =
     \<lparr>books = [\<lparr>total_copies = 2, available_copies = 1\<rparr>],
      borrowings = [\<lparr>b_user_id = 1, b_book_id = 0, b_status = PendingVerification, borrow_date = 1000,
                     due_date = 1210600, return_date = None, renewed_count = 0, fine_amount = 0,
                     fine_paid = False\<rparr>],
      reservations = [],
      verifications = [create_transaction_verification 1 0 TBorrow ''ABC123'' 1000],
      notifications = []\<rparr>"

text \<open>
  The first reader has confirmed the code and holds the only copy; the same database after a second
  copy has been bought; a reader who owes a fine and one who has reached the borrowing limit.
\<close>

definition debtor :: user where
  "debtor = \<lparr>uid = 3, can_borrow = False, get_total_fine = 15\<rparr>"

definition at_limit :: user where
  "at_limit = \<lparr>uid = 4, can_borrow = False, get_total_fine = 0\<rparr>"

definition confirmed :: db where
  "confirmed = run requested [Verify 1 ''abc123'' 2000]"

definition restocked :: db where
  "restocked = confirmed\<lparr>books := [\<lparr>total_copies = 2, available_copies = 1\<rparr>]\<rparr>"

text \<open>The single copy is on the shelf and the second reader holds a pending reservation for it.\<close>

definition reserved :: db where
  "reserved = one_copy\<lparr>reservations :=
     [\<lparr>r_user_id = 2, r_book_id = 0, r_status = RPending, r_created_at = 500,
       expiry_date = None, notified = False\<rparr>]\<rparr>"

text \<open>
  A return waiting for its code, five days after the due date, with two pending reservations for
  the book; the older reservation is the second row of the table.
\<close>

definition returning :: db where
  "returning =
     \<lparr>books = [\<lparr>total_copies = 1, available_copies = 0\<rparr>],
      borrowings = [\<lparr>b_user_id = 1, b_book_id = 0, b_status = PendingReturn, borrow_date = 0,
                     due_date = 1209600, return_date = None, renewed_count = 0, fine_amount = 0,
                     fine_paid = False\<rparr>],
      reservations = [\<lparr>r_user_id = 2, r_book_id = 0, r_status = RPending, r_created_at = 900000,
                       expiry_date = None, notified = False\<rparr>,
                      \<lparr>r_user_id = 3, r_book_id = 0, r_status = RPending, r_created_at = 800000,
                       expiry_date = None, notified = False\<rparr>],
      verifications = [create_transaction_verification 1 0 TReturn ''RET001'' 1641000],
      notifications = []\<rparr>"

text \<open>
  A database in which every copy count is in range while a return still waits for its code,
  although the copy it would give back is counted as available.
\<close>

definition miscounted :: db where
  "miscounted =
     \<lparr>books = [\<lparr>total_copies = 1, available_copies = 1\<rparr>],
      borrowings = [\<lparr>b_user_id = 1, b_book_id = 0, b_status = PendingReturn, borrow_date = 0,
                     due_date = 1209600, return_date = None, renewed_count = 0, fine_amount = 0,
                     fine_paid = False\<rparr>],
      reservations = [],
      verifications = [create_transaction_verification 1 0 TReturn ''RET001'' 1000],
      notifications = []\<rparr>"

section \<open>Properties\<close>

subsection \<open>Queries and the verification step\<close>

lemma first_index_SomeD:
  "first_index P xs = Some i \<Longrightarrow> i < length xs \<and> P (xs ! i)"
  by (induction xs arbitrary: i) (auto split: if_splits)

lemma first_index_least:
  "first_index P xs = Some i \<Longrightarrow> j < i \<Longrightarrow> \<not> P (xs ! j)"
proof (induction xs arbitrary: i j)
  case Nil
  then show ?case by simp
next
  case (Cons x xs)
  then show ?case by (cases j) (auto split: if_splits)
qed

lemma first_index_None_iff:
  "first_index P xs = None \<longleftrightarrow> (\<forall>x\<in>set xs. \<not> P x)"
  by (induction xs) auto

lemma first_index_update:
  "first_index P xs = Some i \<Longrightarrow> P y \<Longrightarrow> first_index P (xs[i := y]) = Some i"
proof (induction xs arbitrary: i)
  case Nil
  then show ?case by simp
next
  case (Cons x xs)
  then show ?case by (cases i) (auto split: if_splits)
qed

lemma first_index_append:
  "first_index P (xs @ ys) =
     (case first_index P xs of
        Some i \<Rightarrow> Some i
      | None \<Rightarrow> map_option (\<lambda>j. length xs + j) (first_index P ys))"
proof (induction xs)
  case Nil
  show ?case by (cases "first_index P ys") simp_all
next
  case (Cons x xs)
  then show ?case by (cases "first_index P ys") (auto split: option.splits)
qed

lemma verifications_commit_and_flash:
  "verifications (snd (commit_and_flash s tt b)) = verifications s"
  by (simp add: commit_and_flash_def)

lemma verify_attempt:
  assumes "find_verification s u (upper (strip raw)) = Some vi"
    and "length (upper (strip raw)) = 6"
    and "\<not> is_verified (verifications s ! vi)"
    and "\<not> is_expired (verifications s ! vi) now"
  shows "verify_transaction_code s u raw now =
           (if borrowing_id (verifications s ! vi) < length (borrowings s) then
              (case transaction_type (verifications s ! vi) of
                 TBorrow \<Rightarrow> finalize_borrow s (mark_verified s vi now) u (borrowing_id (verifications s ! vi)) now
               | TReturn \<Rightarrow> finalize_return s (mark_verified s vi now) (borrowing_id (verifications s ! vi)) now
               | TRenew \<Rightarrow> finalize_renew (mark_verified s vi now) (borrowing_id (verifications s ! vi)) now)
            else (FinalizeError, s))"
  using assms by (auto simp: verify_transaction_code_def Let_def)

lemma verify_again:
  assumes f: "find_verification s u (upper (strip raw)) = Some vi"
    and len: "length (upper (strip raw)) = 6"
    and vs: "verifications s' = verifications (mark_verified s vi t)"
  shows "verify_transaction_code s' u raw now2 = (AlreadyVerified, s')"
proof -
  let ?P = "\<lambda>v. v_user_id v = u \<and> verification_code v = upper (strip raw)"
  from f have fi: "first_index ?P (verifications s) = Some vi"
    by (simp add: find_verification_def)
  from first_index_SomeD[OF fi] have lt: "vi < length (verifications s)" and p: "?P (verifications s ! vi)"
    by simp_all
  have "first_index ?P (verifications s') = Some vi"
    unfolding vs mark_verified_def using first_index_update[OF fi, of "(verifications s ! vi)\<lparr>is_verified := True, verified_at := Some t\<rparr>"] p
    by simp
  moreover have "is_verified (verifications s' ! vi)"
    unfolding vs mark_verified_def using lt by simp
  moreover from len have "upper (strip raw) \<noteq> []" by auto
  ultimately show ?thesis using len
    by (simp add: verify_transaction_code_def find_verification_def Let_def)
qed

lemma finalize_borrow_verifications:
  "snd (finalize_borrow s0 s u bi now) = s0 \<or>
   verifications (snd (finalize_borrow s0 s u bi now)) = verifications s"
  by (auto simp: finalize_borrow_def commit_and_flash_def Let_def split: option.splits)

lemma finalize_return_verifications:
  "snd (finalize_return s0 s bi now) = s0 \<or>
   verifications (snd (finalize_return s0 s bi now)) = verifications s"
  by (auto simp: finalize_return_def commit_and_flash_def Let_def split: option.splits)

lemma finalize_renew_verifications:
  "verifications (snd (finalize_renew s bi now)) = verifications s"
  by (auto simp: finalize_renew_def commit_and_flash_def Let_def)

lemma finalize_borrow_ok:
  "finalize_borrow s0 s u bi now = (out, s') \<Longrightarrow> out \<noteq> FinalizeError \<Longrightarrow>
   verifications s' = verifications s"
  by (auto simp: finalize_borrow_def commit_and_flash_def Let_def split: option.splits if_splits)

lemma finalize_return_ok:
  "finalize_return s0 s bi now = (out, s') \<Longrightarrow> out \<noteq> FinalizeError \<Longrightarrow>
   verifications s' = verifications s"
  by (auto simp: finalize_return_def commit_and_flash_def Let_def split: option.splits if_splits)

lemma finalize_renew_ok:
  "finalize_renew s bi now = (out, s') \<Longrightarrow> verifications s' = verifications s"
  by (auto simp: finalize_renew_def commit_and_flash_def Let_def split: if_splits)

lemma verify_cases:
  assumes "verify_transaction_code s u raw now = (out, s')"
  shows "(s' = s \<and> out \<in> {EnterCode, CodeLength, InvalidCode, AlreadyVerified, CodeExpired, FinalizeError}) \<or>
         (\<exists>vi. find_verification s u (upper (strip raw)) = Some vi \<and> length (upper (strip raw)) = 6 \<and>
               \<not> is_verified (verifications s ! vi) \<and> \<not> is_expired (verifications s ! vi) now \<and>
               borrowing_id (verifications s ! vi) < length (borrowings s) \<and>
               (case transaction_type (verifications s ! vi) of
                 TBorrow \<Rightarrow> finalize_borrow s (mark_verified s vi now) u (borrowing_id (verifications s ! vi)) now
               | TReturn \<Rightarrow> finalize_return s (mark_verified s vi now) (borrowing_id (verifications s ! vi)) now
               | TRenew \<Rightarrow> finalize_renew (mark_verified s vi now) (borrowing_id (verifications s ! vi)) now) = (out, s'))"
  using assms
  by (auto simp: verify_transaction_code_def Let_def split: option.splits if_splits)

subsection \<open>A borrow code confirmed after the last copy has gone\<close>



subsection \<open>A code finalises at most once\<close>

text \<open>
  C2. \<^verbatim>\<open>verify_transaction_code\<close> changes the database only when a verification row exists for the
  user and the code, is not yet verified and is not expired; a row is created with an expiry 24
  hours ahead. A missing row, a verified row and an expired row are each rejected with their own
  message and leave the database as it was. Once a call has committed, the same code presented
  again is answered "already verified" and leaves the database as it was.
\<close>

theorem verification_code_finalizes_once:
  assumes res: "verify_transaction_code s u raw now = (out, s')"
  shows "((s' \<noteq> s \<or> out = VerifiedOk tt) \<longrightarrow>
            (\<exists>vi. find_verification s u (upper (strip raw)) = Some vi \<and>
                  \<not> is_verified (verifications s ! vi) \<and>
                  \<not> is_expired (verifications s ! vi) now \<and>
                  is_verified (verifications s' ! vi)) \<and>
            verify_transaction_code s' u raw now2 = (AlreadyVerified, s')) \<and>
         (length (upper (strip raw)) = 6 \<and> find_verification s u (upper (strip raw)) = None \<longrightarrow>
            out = InvalidCode \<and> s' = s) \<and>
         (length (upper (strip raw)) = 6 \<and> find_verification s u (upper (strip raw)) = Some i \<and>
          is_verified (verifications s ! i) \<longrightarrow>
            out = AlreadyVerified \<and> s' = s) \<and>
         (length (upper (strip raw)) = 6 \<and> find_verification s u (upper (strip raw)) = Some i \<and>
          \<not> is_verified (verifications s ! i) \<and> is_expired (verifications s ! i) now \<longrightarrow>
            out = CodeExpired \<and> s' = s) \<and>
         (is_expired (create_transaction_verification u' bi ty c t) now \<longleftrightarrow> t + 24 * 3600 < now)"
proof -
  have first: "(\<exists>vi. find_verification s u (upper (strip raw)) = Some vi \<and>
                  \<not> is_verified (verifications s ! vi) \<and>
                  \<not> is_expired (verifications s ! vi) now \<and>
                  is_verified (verifications s' ! vi)) \<and>
            verify_transaction_code s' u raw now2 = (AlreadyVerified, s')"
    if commit: "s' \<noteq> s \<or> out = VerifiedOk tt"
  proof -
    from verify_cases[OF res] commit
    obtain vi where found: "find_verification s u (upper (strip raw)) = Some vi"
      and len: "length (upper (strip raw)) = 6"
      and fresh: "\<not> is_verified (verifications s ! vi)"
      and live: "\<not> is_expired (verifications s ! vi) now"
      and fin: "(case transaction_type (verifications s ! vi) of
                 TBorrow \<Rightarrow> finalize_borrow s (mark_verified s vi now) u (borrowing_id (verifications s ! vi)) now
               | TReturn \<Rightarrow> finalize_return s (mark_verified s vi now) (borrowing_id (verifications s ! vi)) now
               | TRenew \<Rightarrow> finalize_renew (mark_verified s vi now) (borrowing_id (verifications s ! vi)) now) = (out, s')"
      by auto
    have vs: "verifications s' = verifications (mark_verified s vi now)"
    proof (cases "transaction_type (verifications s ! vi)")
      case TBorrow
      with fin commit finalize_borrow_verifications[of s "mark_verified s vi now" u "borrowing_id (verifications s ! vi)" now]
        finalize_borrow_ok[of s "mark_verified s vi now" u "borrowing_id (verifications s ! vi)" now out s']
      show ?thesis by auto
    next
      case TReturn
      with fin commit finalize_return_verifications[of s "mark_verified s vi now" "borrowing_id (verifications s ! vi)" now]
        finalize_return_ok[of s "mark_verified s vi now" "borrowing_id (verifications s ! vi)" now out s']
      show ?thesis by auto
    next
      case TRenew
      with fin finalize_renew_ok show ?thesis by auto
    qed
    from found have "vi < length (verifications s)"
      using first_index_SomeD by (fastforce simp: find_verification_def)
    then have "is_verified (verifications s' ! vi)"
      by (simp add: vs mark_verified_def)
    moreover have "verify_transaction_code s' u raw now2 = (AlreadyVerified, s')"
      by (rule verify_again[OF found len vs])
    ultimately show ?thesis using found fresh live by blast
  qed
  have rejects: "(length (upper (strip raw)) = 6 \<and> find_verification s u (upper (strip raw)) = None \<longrightarrow>
            out = InvalidCode \<and> s' = s) \<and>
         (length (upper (strip raw)) = 6 \<and> find_verification s u (upper (strip raw)) = Some i \<and>
          is_verified (verifications s ! i) \<longrightarrow>
            out = AlreadyVerified \<and> s' = s) \<and>
         (length (upper (strip raw)) = 6 \<and> find_verification s u (upper (strip raw)) = Some i \<and>
          \<not> is_verified (verifications s ! i) \<and> is_expired (verifications s ! i) now \<longrightarrow>
            out = CodeExpired \<and> s' = s)"
  proof (cases "length (upper (strip raw)) = 6")
    case True
    then have "upper (strip raw) \<noteq> []" by auto
    with True res show ?thesis
      by (auto simp: verify_transaction_code_def Let_def)
  next
    case False
    then show ?thesis by simp
  qed
  have created: "is_expired (create_transaction_verification u' bi ty c t) now \<longleftrightarrow> t + 24 * 3600 < now"
    by (simp add: is_expired_def create_transaction_verification_def timedelta_def)
  from first rejects created show ?thesis by blast
qed

theorem verification_code_finalizes_once_witness:
  "fst (verify_transaction_code requested 1 ''abc123'' 2000) = VerifiedOk TBorrow \<and>
   verify_transaction_code (snd (verify_transaction_code requested 1 ''abc123'' 2000)) 1 ''abc123'' 2500 =
     (AlreadyVerified, snd (verify_transaction_code requested 1 ''abc123'' 2000)) \<and>
   verify_transaction_code requested 1 ''abc123'' 90000 = (CodeExpired, requested) \<and>
   verify_transaction_code requested 1 ''ZZZ999'' 2000 = (InvalidCode, requested)"
proof -
  have ok: "fst (verify_transaction_code requested 1 ''abc123'' 2000) = VerifiedOk TBorrow"
    by code_simp
  have found: "length (upper (strip ''abc123'')) = 6 \<and>
               find_verification requested 1 (upper (strip ''abc123'')) = Some 0 \<and>
               \<not> is_verified (verifications requested ! 0) \<and>
               is_expired (verifications requested ! 0) 90000"
    by code_simp
  have missing: "length (upper (strip ''ZZZ999'')) = 6 \<and>
                 find_verification requested 1 (upper (strip ''ZZZ999'')) = None"
    by code_simp
  from ok
    verification_code_finalizes_once
      [OF surjective_pairing, of requested 1 "''abc123''" 2000 TBorrow 2500]
  have again: "verify_transaction_code (snd (verify_transaction_code requested 1 ''abc123'' 2000)) 1 ''abc123'' 2500 =
     (AlreadyVerified, snd (verify_transaction_code requested 1 ''abc123'' 2000))"
    by blast
  from found
    verification_code_finalizes_once
      [OF surjective_pairing, of requested 1 "''abc123''" 90000 _ _ 0]
  have late: "verify_transaction_code requested 1 ''abc123'' 90000 = (CodeExpired, requested)"
    by (metis surjective_pairing)
  from missing
    verification_code_finalizes_once
      [OF surjective_pairing, of requested 1 "''ZZZ999''" 2000]
  have wrong: "verify_transaction_code requested 1 ''ZZZ999'' 2000 = (InvalidCode, requested)"
    by (metis surjective_pairing)
  from ok again late wrong show ?thesis by blast
qed

subsection \<open>A borrow code whose borrowing is no longer pending\<close>

text \<open>
  The finalisation of a borrow tests \<^verbatim>\<open>status in ['pending', 'pending_verification']\<close>: a borrowing
  in the second state is not in status \<^verbatim>\<open>'pending'\<close>, and its code still takes a copy, moves the
  borrowing to \<^verbatim>\<open>'borrowed'\<close> and creates a notification.
\<close>

theorem pending_verification_counterexample:
  "find_verification awaiting_verification 1 (upper (strip ''ABC123'')) = Some 0 \<and>
   transaction_type (verifications awaiting_verification ! 0) = TBorrow \<and>
   \<not> is_verified (verifications awaiting_verification ! 0) \<and>
   \<not> is_expired (verifications awaiting_verification ! 0) 2000 \<and>
   b_status (borrowings awaiting_verification ! 0) \<noteq> Pending \<and>
   fst (verify_transaction_code awaiting_verification 1 ''ABC123'' 2000) = VerifiedOk TBorrow \<and>
   available_copies (books (snd (verify_transaction_code awaiting_verification 1 ''ABC123'' 2000)) ! 0) = 0 \<and>
   available_copies (books awaiting_verification ! 0) = 1 \<and>
   b_status (borrowings (snd (verify_transaction_code awaiting_verification 1 ''ABC123'' 2000)) ! 0) = Borrowed \<and>
   length (notifications (snd (verify_transaction_code awaiting_verification 1 ''ABC123'' 2000))) = 1 \<and>
   length (notifications awaiting_verification) = 0"
  by code_simp

text \<open>
  C10 (amended). For a valid, unexpired, unused code of type borrow whose borrowing exists, refers
  to an existing book and is in neither of the states \<^verbatim>\<open>'pending'\<close> and \<^verbatim>\<open>'pending_verification'\<close>,
  verification marks the code verified and reports success, and changes no book, no borrowing,
  no reservation and no notification.
\<close>

theorem stale_borrow_code_changes_nothing:
  assumes found: "find_verification s u (upper (strip raw)) = Some vi"
    and len: "length (upper (strip raw)) = 6"
    and fresh: "\<not> is_verified (verifications s ! vi)"
    and live: "\<not> is_expired (verifications s ! vi) now"
    and tt: "transaction_type (verifications s ! vi) = TBorrow"
    and b: "lookup (borrowings s) (borrowing_id (verifications s ! vi)) = Some b"
    and st: "b_status b \<noteq> Pending" "b_status b \<noteq> PendingVerification"
    and bk: "b_book_id b < length (books s)"
    and res: "verify_transaction_code s u raw now = (out, s')"
  shows "out = VerifiedOk TBorrow \<and>
         s' = mark_verified s vi now \<and>
         is_verified (verifications s' ! vi) \<and>
         books s' = books s \<and> borrowings s' = borrowings s \<and>
         notifications s' = notifications s \<and> reservations s' = reservations s"
proof -
  from b have lt: "borrowing_id (verifications s ! vi) < length (borrowings s)"
    and b_eq: "borrowings s ! borrowing_id (verifications s ! vi) = b"
    by (auto simp: lookup_def split: if_splits)
  have "verify_transaction_code s u raw now = (VerifiedOk TBorrow, mark_verified s vi now)"
    using verify_attempt[OF found len fresh live] lt b_eq tt st bk
    by (simp add: finalize_borrow_def commit_and_flash_def mark_verified_def Let_def)
  with res have out: "out = VerifiedOk TBorrow" and s': "s' = mark_verified s vi now"
    by simp_all
  from found have "vi < length (verifications s)"
    using first_index_SomeD by (fastforce simp: find_verification_def)
  then have "is_verified (verifications s' ! vi)"
    by (simp add: s' mark_verified_def)
  then show ?thesis
    using out by (simp add: s' mark_verified_def)
qed

theorem stale_borrow_code_witness:
  "fst (verify_transaction_code approved_elsewhere 1 ''ABC123'' 2000) = VerifiedOk TBorrow \<and>
   snd (verify_transaction_code approved_elsewhere 1 ''ABC123'' 2000) = mark_verified approved_elsewhere 0 2000 \<and>
   is_verified (verifications (snd (verify_transaction_code approved_elsewhere 1 ''ABC123'' 2000)) ! 0) \<and>
   books (snd (verify_transaction_code approved_elsewhere 1 ''ABC123'' 2000)) = books approved_elsewhere \<and>
   borrowings (snd (verify_transaction_code approved_elsewhere 1 ''ABC123'' 2000)) = borrowings approved_elsewhere \<and>
   notifications (snd (verify_transaction_code approved_elsewhere 1 ''ABC123'' 2000)) = notifications approved_elsewhere \<and>
   reservations (snd (verify_transaction_code approved_elsewhere 1 ''ABC123'' 2000)) = reservations approved_elsewhere"
proof -
  have 1: "find_verification approved_elsewhere 1 (upper (strip ''ABC123'')) = Some 0" by code_simp
  have 2: "length (upper (strip ''ABC123'')) = 6" by code_simp
  have 3: "\<not> is_verified (verifications approved_elsewhere ! 0)" by code_simp
  have 4: "\<not> is_expired (verifications approved_elsewhere ! 0) 2000" by code_simp
  have 5: "transaction_type (verifications approved_elsewhere ! 0) = TBorrow" by code_simp
  have 6: "lookup (borrowings approved_elsewhere) (borrowing_id (verifications approved_elsewhere ! 0)) =
             Some (borrowings approved_elsewhere ! 0)" by code_simp
  have 7: "b_status (borrowings approved_elsewhere ! 0) \<noteq> Pending" by code_simp
  have 8: "b_status (borrowings approved_elsewhere ! 0) \<noteq> PendingVerification" by code_simp
  have 9: "b_book_id (borrowings approved_elsewhere ! 0) < length (books approved_elsewhere)" by code_simp
  show ?thesis
    by (rule stale_borrow_code_changes_nothing[OF 1 2 3 4 5 6 7 8 9 surjective_pairing])
qed

subsection \<open>Rejected borrow requests\<close>

text \<open>
  C6. A borrow request that fails a precondition (the book is not available; the reader may not
  borrow, because of a fine or of the borrowing limit; the reader already holds a borrowed copy of
  the book) is answered with the message of that precondition and leaves the whole database as it
  was: no borrowing, reservation, verification or notification is created and no copy count
  changes.
\<close>

theorem borrow_rejections_change_nothing:
  assumes bk: "lookup (books s) bid = Some bk"
    and res: "borrow s cu bid now code = (out, s')"
  shows "(\<not> is_available bk \<longrightarrow> out = BookNotAvailable \<and> s' = s) \<and>
         (is_available bk \<and> \<not> can_borrow cu \<and> get_total_fine cu > 0 \<longrightarrow>
            out = ClearFines \<and> s' = s) \<and>
         (is_available bk \<and> \<not> can_borrow cu \<and> \<not> get_total_fine cu > 0 \<longrightarrow>
            out = LimitReached \<and> s' = s) \<and>
         (is_available bk \<and> can_borrow cu \<and>
          first_index (\<lambda>b. b_user_id b = uid cu \<and> b_book_id b = bid \<and> b_status b = Borrowed)
            (borrowings s) = Some i \<longrightarrow>
            out = AlreadyBorrowed \<and> s' = s) \<and>
         (out \<noteq> BorrowSubmitted \<longrightarrow> s' = s)"
  using bk res
  by (auto simp: borrow_def Let_def split: option.splits if_splits)

theorem borrow_rejections_witness:
  "(fst (borrow confirmed (reader 2) 0 3000 ''QRS789'') = BookNotAvailable \<and>
    snd (borrow confirmed (reader 2) 0 3000 ''QRS789'') = confirmed) \<and>
   (fst (borrow restocked debtor 0 3000 ''QRS789'') = ClearFines \<and>
    snd (borrow restocked debtor 0 3000 ''QRS789'') = restocked) \<and>
   (fst (borrow restocked at_limit 0 3000 ''QRS789'') = LimitReached \<and>
    snd (borrow restocked at_limit 0 3000 ''QRS789'') = restocked) \<and>
   (fst (borrow restocked (reader 1) 0 3000 ''QRS789'') = AlreadyBorrowed \<and>
    snd (borrow restocked (reader 1) 0 3000 ''QRS789'') = restocked)"
proof -
  have a: "lookup (books confirmed) 0 = Some (books confirmed ! 0)"
    and a': "\<not> is_available (books confirmed ! 0)"
    by code_simp+
  have b: "lookup (books restocked) 0 = Some (books restocked ! 0)"
    and b': "is_available (books restocked ! 0)"
    and d: "\<not> can_borrow debtor" "get_total_fine debtor > 0"
    and l: "\<not> can_borrow at_limit" "\<not> get_total_fine at_limit > 0"
    and r: "can_borrow (reader 1)"
           "first_index (\<lambda>b. b_user_id b = uid (reader 1) \<and> b_book_id b = 0 \<and> b_status b = Borrowed)
              (borrowings restocked) = Some 0"
    by code_simp+
  note t1 = borrow_rejections_change_nothing[OF a surjective_pairing, of "reader 2" 3000 "''QRS789''"]
  note t2 = borrow_rejections_change_nothing[OF b surjective_pairing, of debtor 3000 "''QRS789''"]
  note t3 = borrow_rejections_change_nothing[OF b surjective_pairing, of at_limit 3000 "''QRS789''"]
  note t4 = borrow_rejections_change_nothing[OF b surjective_pairing, of "reader 1" 3000 "''QRS789''" 0]
  note 1 = t1[THEN conjunct1, THEN mp, OF a']
  note 2 = t2[THEN conjunct2, THEN conjunct1, THEN mp, OF conjI[OF b' conjI[OF d]]]
  note 3 = t3[THEN conjunct2, THEN conjunct2, THEN conjunct1, THEN mp, OF conjI[OF b' conjI[OF l]]]
  note 4 = t4[THEN conjunct2, THEN conjunct2, THEN conjunct2, THEN conjunct1, THEN mp,
      OF conjI[OF b' conjI[OF r]]]
  show ?thesis
    by (rule conjI[OF 1 conjI[OF 2 conjI[OF 3 4]]])
qed

subsection \<open>What a finalisation writes\<close>

lemma finalize_borrow_cases:
  assumes "finalize_borrow s0 s u bi now = (out, s')"
  shows "(out = FinalizeError \<and> s' = s0) \<or>
         (out \<noteq> VerifiedOk TReturn \<and> out \<noteq> VerifiedOk TRenew \<and> s' = s) \<or>
         (out = VerifiedOk TBorrow \<and>
          (b_status (borrowings s ! bi) = Pending \<or> b_status (borrowings s ! bi) = PendingVerification) \<and>
          b_book_id (borrowings s ! bi) < length (books s) \<and>
          0 < available_copies (books s ! b_book_id (borrowings s ! bi)) \<and>
          books s' = (books s)[b_book_id (borrowings s ! bi) :=
                         (books s ! b_book_id (borrowings s ! bi))
                           \<lparr>available_copies :=
                              available_copies (books s ! b_book_id (borrowings s ! bi)) - 1\<rparr>] \<and>
          borrowings s' = (borrowings s)[bi := (borrowings s ! bi)\<lparr>b_status := Borrowed, borrow_date := now\<rparr>] \<and>
          reservations s' = reservations s \<and>
          verifications s' = verifications s)"
  using assms
  by (auto simp: finalize_borrow_def commit_and_flash_def lookup_def Let_def split: if_splits)

lemma finalize_return_cases:
  assumes "finalize_return s0 s bi now = (out, s')"
  shows "(out = FinalizeError \<and> s' = s0) \<or>
         (out = VerifiedOk TReturn \<and>
          b_book_id (borrowings s ! bi) < length (books s) \<and>
          books s' = (books s)[b_book_id (borrowings s ! bi) :=
                         (books s ! b_book_id (borrowings s ! bi))
                           \<lparr>available_copies :=
                              available_copies (books s ! b_book_id (borrowings s ! bi)) + 1\<rparr>] \<and>
          borrowings s' = (borrowings s)[bi := (borrowings s ! bi)
                             \<lparr>return_date := Some now,
                              fine_amount := calculate_fine ((borrowings s ! bi)\<lparr>return_date := Some now\<rparr>) now,
                              b_status := Returned\<rparr>] \<and>
          verifications s' = verifications s)"
  using assms
  by (auto simp: finalize_return_def commit_and_flash_def lookup_def Let_def
      split: if_splits option.splits)

lemma finalize_renew_cases:
  assumes "finalize_renew s bi now = (out, s')"
  shows "out \<noteq> VerifiedOk TBorrow \<and> books s' = books s \<and> reservations s' = reservations s \<and>
         verifications s' = verifications s \<and>
         (borrowings s' = borrowings s \<or>
          borrowings s' = (borrowings s)[bi := (borrowings s ! bi)
                             \<lparr>due_date := due_date (borrowings s ! bi) + timedelta 14 0,
                              renewed_count := renewed_count (borrowings s ! bi) + 1\<rparr>])"
  using assms
  by (auto simp: finalize_renew_def commit_and_flash_def renew_def Let_def split: if_splits)

lemma nth_update_copies:
  "k < length bs \<Longrightarrow>
   available_copies (bs[j := (bs ! j)\<lparr>available_copies := c\<rparr>] ! k) =
     (if j = k then c else available_copies (bs ! k))"
  by (simp add: nth_list_update)

lemma verify_takes_a_copy:
  assumes res: "verify_transaction_code s u raw now = (out, s')"
    and k: "k < length (books s)"
    and less: "available_copies (books s' ! k) < available_copies (books s ! k)"
  shows "out = VerifiedOk TBorrow"
proof -
  from less have "s' \<noteq> s" by auto
  with verify_cases[OF res]
  obtain vi where fin: "(case transaction_type (verifications s ! vi) of
                 TBorrow \<Rightarrow> finalize_borrow s (mark_verified s vi now) u (borrowing_id (verifications s ! vi)) now
               | TReturn \<Rightarrow> finalize_return s (mark_verified s vi now) (borrowing_id (verifications s ! vi)) now
               | TRenew \<Rightarrow> finalize_renew (mark_verified s vi now) (borrowing_id (verifications s ! vi)) now) = (out, s')"
    by auto
  have bks: "books (mark_verified s vi now) = books s"
    by (simp add: mark_verified_def)
  show ?thesis
  proof (cases "transaction_type (verifications s ! vi)")
    case TBorrow
    with fin finalize_borrow_cases[of s "mark_verified s vi now" u "borrowing_id (verifications s ! vi)" now out s']
      \<open>s' \<noteq> s\<close> less bks
    show ?thesis by auto
  next
    case TReturn
    with fin finalize_return_cases[of s "mark_verified s vi now" "borrowing_id (verifications s ! vi)" now out s']
      \<open>s' \<noteq> s\<close> less k bks
    show ?thesis by (auto simp: nth_update_copies split: if_splits)
  next
    case TRenew
    with fin finalize_renew_cases[of "mark_verified s vi now" "borrowing_id (verifications s ! vi)" now out s']
      less bks
    show ?thesis by auto
  qed
qed

lemma only_borrow_finalisation_takes_a_copy:
  assumes "k < length (books s)"
    and "available_copies (books (snd (step s x)) ! k) < available_copies (books s ! k)"
  shows "fst (step s x) = VerifiedOk TBorrow"
proof (cases x)
  case (Borrow cu bid now code)
  with assms show ?thesis
    by (auto simp: step_def borrow_def Let_def split: option.splits if_splits)
next
  case (ReturnBook u bi now code)
  with assms show ?thesis
    by (auto simp: step_def return_book_def Let_def split: option.splits if_splits)
next
  case (RenewBook u bi now code)
  with assms show ?thesis
    by (auto simp: step_def renew_book_def Let_def split: option.splits if_splits prod.splits bool.splits)
next
  case (Verify u raw now)
  with assms verify_takes_a_copy[OF surjective_pairing, of k s u raw now]
  show ?thesis by (simp add: step_def)
qed

subsection \<open>The copy is taken at confirmation, not at the request\<close>

text \<open>
  C4. A successful borrow request appends a borrowing in status pending whose due date is the
  request time plus 14 days, together with its borrow code, and leaves every book as it was. The
  copy is taken when that code is confirmed: the confirmation of a borrow code whose borrowing is
  pending and whose book has a copy left lowers \<open>available_copies\<close> by one and moves the borrowing
  to status borrowed. No other step of the workflow lowers a copy count.
\<close>

theorem borrow_takes_the_copy_on_confirmation:
  assumes bk: "lookup (books s) bid = Some bk"
    and av: "is_available bk"
    and cb: "can_borrow cu"
    and nodup: "first_index (\<lambda>b. b_user_id b = uid cu \<and> b_book_id b = bid \<and> b_status b = Borrowed)
                  (borrowings s) = None"
    and req: "borrow s cu bid now code = (out, s1)"
    and found: "find_verification t u (upper (strip raw)) = Some vi"
    and len: "length (upper (strip raw)) = 6"
    and fresh: "\<not> is_verified (verifications t ! vi)"
    and live: "\<not> is_expired (verifications t ! vi) now2"
    and tt: "transaction_type (verifications t ! vi) = TBorrow"
    and b: "lookup (borrowings t) (borrowing_id (verifications t ! vi)) = Some b"
    and st: "b_status b = Pending"
    and bk': "lookup (books t) (b_book_id b) = Some bk'"
    and av': "0 < available_copies bk'"
    and ver: "verify_transaction_code t u raw now2 = (out2, t')"
  shows "(out = BorrowSubmitted \<and>
          books s1 = books s \<and>
          (\<exists>b. borrowings s1 = borrowings s @ [b] \<and>
                b_user_id b = uid cu \<and> b_book_id b = bid \<and>
                b_status b = Pending \<and> due_date b = now + 14 * 86400) \<and>
          verifications s1 = verifications s @
            [create_transaction_verification (uid cu) (length (borrowings s)) TBorrow code now]) \<and>
         (out2 = VerifiedOk TBorrow \<and>
          books t' = (books t)[b_book_id b := bk'\<lparr>available_copies := available_copies bk' - 1\<rparr>] \<and>
          borrowings t' = (borrowings t)[borrowing_id (verifications t ! vi) :=
                             b\<lparr>b_status := Borrowed, borrow_date := now2\<rparr>]) \<and>
         (k < length (books w) \<and>
          available_copies (books (snd (step w x)) ! k) < available_copies (books w ! k) \<longrightarrow>
            fst (step w x) = VerifiedOk TBorrow)"
proof -
  have request: "out = BorrowSubmitted \<and>
          books s1 = books s \<and>
          (\<exists>b. borrowings s1 = borrowings s @ [b] \<and>
                b_user_id b = uid cu \<and> b_book_id b = bid \<and>
                b_status b = Pending \<and> due_date b = now + 14 * 86400) \<and>
          verifications s1 = verifications s @
            [create_transaction_verification (uid cu) (length (borrowings s)) TBorrow code now]"
    using bk av cb nodup req
    by (auto simp: borrow_def Let_def timedelta_def)
  from b have lt: "borrowing_id (verifications t ! vi) < length (borrowings t)"
    and b_eq: "borrowings t ! borrowing_id (verifications t ! vi) = b"
    by (auto simp: lookup_def split: if_splits)
  from bk' have lt': "b_book_id b < length (books t)" and bk_eq: "books t ! b_book_id b = bk'"
    by (auto simp: lookup_def split: if_splits)
  have "verify_transaction_code t u raw now2 =
          (VerifiedOk TBorrow,
           (mark_verified t vi now2)
             \<lparr>books := (books t)[b_book_id b := bk'\<lparr>available_copies := available_copies bk' - 1\<rparr>],
              borrowings := (borrowings t)[borrowing_id (verifications t ! vi) :=
                               b\<lparr>b_status := Borrowed, borrow_date := now2\<rparr>],
              notifications := notifications t @
                [\<lparr>n_user_id = u, n_type = NBorrow, related_id = Some (borrowing_id (verifications t ! vi))\<rparr>]\<rparr>)"
    using verify_attempt[OF found len fresh live] lt b_eq tt st bk' av' lt'
    by (simp add: finalize_borrow_def commit_and_flash_def mark_verified_def Let_def)
  with ver have confirm: "out2 = VerifiedOk TBorrow \<and>
          books t' = (books t)[b_book_id b := bk'\<lparr>available_copies := available_copies bk' - 1\<rparr>] \<and>
          borrowings t' = (borrowings t)[borrowing_id (verifications t ! vi) :=
                             b\<lparr>b_status := Borrowed, borrow_date := now2\<rparr>]"
    by auto
  have only: "k < length (books w) \<and>
          available_copies (books (snd (step w x)) ! k) < available_copies (books w ! k) \<longrightarrow>
            fst (step w x) = VerifiedOk TBorrow"
    using only_borrow_finalisation_takes_a_copy by blast
  show ?thesis
    by (rule conjI[OF request conjI[OF confirm only]])
qed

theorem borrow_takes_the_copy_witness:
  "(fst (borrow one_copy (reader 1) 0 1000 ''ABC123'') = BorrowSubmitted \<and>
    books (snd (borrow one_copy (reader 1) 0 1000 ''ABC123'')) = books one_copy \<and>
    (\<exists>b. borrowings (snd (borrow one_copy (reader 1) 0 1000 ''ABC123'')) = borrowings one_copy @ [b] \<and>
          b_user_id b = uid (reader 1) \<and> b_book_id b = 0 \<and>
          b_status b = Pending \<and> due_date b = 1000 + 14 * 86400) \<and>
    verifications (snd (borrow one_copy (reader 1) 0 1000 ''ABC123'')) = verifications one_copy @
            [create_transaction_verification (uid (reader 1)) (length (borrowings one_copy)) TBorrow ''ABC123'' 1000]) \<and>
   (fst (verify_transaction_code requested 1 ''abc123'' 2000) = VerifiedOk TBorrow \<and>
    books (snd (verify_transaction_code requested 1 ''abc123'' 2000)) =
      (books requested)[b_book_id (borrowings requested ! 0) :=
         (books requested ! 0)\<lparr>available_copies := available_copies (books requested ! 0) - 1\<rparr>] \<and>
    borrowings (snd (verify_transaction_code requested 1 ''abc123'' 2000)) =
      (borrowings requested)[borrowing_id (verifications requested ! 0) :=
         (borrowings requested ! 0)\<lparr>b_status := Borrowed, borrow_date := 2000\<rparr>]) \<and>
   available_copies (books one_copy ! 0) = 1 \<and>
   available_copies (books requested ! 0) = 1 \<and>
   available_copies (books confirmed ! 0) = 0 \<and>
   fst (borrow confirmed (reader 2) 0 3000 ''QRS789'') = BookNotAvailable"
proof -
  have 1: "lookup (books one_copy) 0 = Some (books one_copy ! 0)" by code_simp
  have 2: "is_available (books one_copy ! 0)" by code_simp
  have 3: "can_borrow (reader 1)" by code_simp
  have 4: "first_index (\<lambda>b. b_user_id b = uid (reader 1) \<and> b_book_id b = 0 \<and> b_status b = Borrowed)
             (borrowings one_copy) = None" by code_simp
  have 5: "find_verification requested 1 (upper (strip ''abc123'')) = Some 0" by code_simp
  have 6: "length (upper (strip ''abc123'')) = 6" by code_simp
  have 7: "\<not> is_verified (verifications requested ! 0)" by code_simp
  have 8: "\<not> is_expired (verifications requested ! 0) 2000" by code_simp
  have 9: "transaction_type (verifications requested ! 0) = TBorrow" by code_simp
  have 10: "lookup (borrowings requested) (borrowing_id (verifications requested ! 0)) =
              Some (borrowings requested ! 0)" by code_simp
  have 11: "b_status (borrowings requested ! 0) = Pending" by code_simp
  have 12: "lookup (books requested) (b_book_id (borrowings requested ! 0)) = Some (books requested ! 0)"
    by code_simp
  have 13: "0 < available_copies (books requested ! 0)" by code_simp
  note t = borrow_takes_the_copy_on_confirmation
    [OF 1 2 3 4 surjective_pairing 5 6 7 8 9 10 11 12 13 surjective_pairing,
     of 1000 "''ABC123''"]
  have scenario: "available_copies (books one_copy ! 0) = 1 \<and>
     available_copies (books requested ! 0) = 1 \<and>
     available_copies (books confirmed ! 0) = 0 \<and>
     fst (borrow confirmed (reader 2) 0 3000 ''QRS789'') = BookNotAvailable"
    by code_simp
  show ?thesis
    by (rule conjI[OF t[THEN conjunct1] conjI[OF t[THEN conjunct2, THEN conjunct1] scenario]])
qed

subsection \<open>The reader's own reservation\<close>

lemma map_update_same:
  "f y = f (xs ! i) \<Longrightarrow> map f (xs[i := y]) = map f xs"
  by (induction xs arbitrary: i) (auto split: nat.splits)

lemma finalize_return_statuses:
  assumes "reservations s0 = reservations s"
  shows "map r_status (reservations (snd (finalize_return s0 s bi now))) = map r_status (reservations s)"
  using assms
  by (auto simp: finalize_return_def commit_and_flash_def Let_def map_update_same
      split: option.splits)

lemma finalize_borrow_statuses:
  assumes "reservations s0 = reservations s"
  shows "reservations (snd (finalize_borrow s0 s u bi now)) = reservations s"
  using assms
  by (auto simp: finalize_borrow_def commit_and_flash_def Let_def split: option.splits)

lemma finalize_renew_statuses:
  "reservations (snd (finalize_renew s bi now)) = reservations s"
  by (auto simp: finalize_renew_def commit_and_flash_def Let_def)

lemma verify_statuses:
  "map r_status (reservations (snd (verify_transaction_code s u raw now))) = map r_status (reservations s)"
proof -
  have m: "reservations s = reservations (mark_verified s vi now)" for vi
    by (simp add: mark_verified_def)
  show ?thesis
    using finalize_return_statuses[OF m] finalize_borrow_statuses[OF m] finalize_renew_statuses m
    by (simp add: verify_transaction_code_def Let_def split: option.splits transaction_type.splits)
qed

lemma nth_update_fulfilled:
  "i < length rs \<Longrightarrow> r_status (rs ! i) = Fulfilled \<Longrightarrow>
   r_status (rs[j := (rs ! j)\<lparr>r_status := Fulfilled\<rparr>] ! i) = Fulfilled"
  by (cases "i = j") simp_all

lemma step_keeps_fulfilled:
  assumes "i < length (reservations s)" and "r_status (reservations s ! i) = Fulfilled"
  shows "i < length (reservations (snd (step s x))) \<and>
         r_status (reservations (snd (step s x)) ! i) = Fulfilled"
proof (cases x)
  case (Borrow cu bid now code)
  with assms show ?thesis
    by (auto simp: step_def borrow_def Let_def nth_update_fulfilled split: option.splits)
next
  case (ReturnBook u bi now code)
  with assms show ?thesis
    by (auto simp: step_def return_book_def split: option.splits)
next
  case (RenewBook u bi now code)
  with assms show ?thesis
    by (auto simp: step_def renew_book_def Let_def split: option.splits prod.splits bool.splits)
next
  case (Verify u raw now)
  have eq: "map r_status (reservations (snd (step s x))) = map r_status (reservations s)"
    using Verify verify_statuses by (simp add: step_def)
  then have len: "length (reservations (snd (step s x))) = length (reservations s)"
    by (rule map_eq_imp_length_eq)
  with assms have "r_status (reservations (snd (step s x)) ! i) = map r_status (reservations (snd (step s x))) ! i"
    by simp
  with eq assms len show ?thesis by simp
qed

lemma run_keeps_fulfilled:
  "i < length (reservations s) \<Longrightarrow> r_status (reservations s ! i) = Fulfilled \<Longrightarrow>
   i < length (reservations (run s xs)) \<and> r_status (reservations (run s xs) ! i) = Fulfilled"
proof (induction xs arbitrary: s)
  case Nil
  then show ?case by simp
next
  case (Cons x xs)
  from step_keeps_fulfilled[OF Cons.prems, of x] Cons.IH[of "snd (step s x)"]
  show ?case by simp
qed

text \<open>
  C8. When a borrow request succeeds and the reader holds a pending reservation for the book, the
  first such reservation is set to fulfilled by the request itself, while the new borrowing is
  still pending and its code unconfirmed. No later step of the workflow, and in particular no
  verification, whatever its outcome, sets it back: it is still fulfilled after any sequence of
  steps.
\<close>

theorem own_reservation_fulfilled_at_request:
  assumes bk: "lookup (books s) bid = Some bk"
    and av: "is_available bk"
    and cb: "can_borrow cu"
    and nodup: "first_index (\<lambda>b. b_user_id b = uid cu \<and> b_book_id b = bid \<and> b_status b = Borrowed)
                  (borrowings s) = None"
    and mine: "first_index (\<lambda>r. r_user_id r = uid cu \<and> r_book_id r = bid \<and> r_status r = RPending)
                 (reservations s) = Some ri"
    and req: "borrow s cu bid now code = (out, s1)"
  shows "(out = BorrowSubmitted \<and>
          reservations s1 = (reservations s)[ri := (reservations s ! ri)\<lparr>r_status := Fulfilled\<rparr>] \<and>
          r_status (reservations s1 ! ri) = Fulfilled \<and>
          b_status (borrowings s1 ! length (borrowings s)) = Pending \<and>
          \<not> is_verified (verifications s1 ! length (verifications s)) \<and>
          books s1 = books s) \<and>
         r_status (reservations (snd (verify_transaction_code s1 u raw now2)) ! ri) = Fulfilled \<and>
         r_status (reservations (run s1 xs) ! ri) = Fulfilled"
proof -
  from first_index_SomeD[OF mine] have lt: "ri < length (reservations s)" by simp
  have request: "out = BorrowSubmitted \<and>
          reservations s1 = (reservations s)[ri := (reservations s ! ri)\<lparr>r_status := Fulfilled\<rparr>] \<and>
          r_status (reservations s1 ! ri) = Fulfilled \<and>
          b_status (borrowings s1 ! length (borrowings s)) = Pending \<and>
          \<not> is_verified (verifications s1 ! length (verifications s)) \<and>
          books s1 = books s"
    using bk av cb nodup mine req lt
    by (auto simp: borrow_def Let_def create_transaction_verification_def)
  then have f: "ri < length (reservations s1)" "r_status (reservations s1 ! ri) = Fulfilled"
    using lt by simp_all
  from run_keeps_fulfilled[OF f, of "[Verify u raw now2]"]
  have one: "r_status (reservations (snd (verify_transaction_code s1 u raw now2)) ! ri) = Fulfilled"
    by (simp add: step_def)
  from run_keeps_fulfilled[OF f, of xs]
  have many: "r_status (reservations (run s1 xs) ! ri) = Fulfilled" by simp
  show ?thesis
    by (rule conjI[OF request conjI[OF one many]])
qed

theorem own_reservation_witness:
  "r_status (reservations reserved ! 0) = RPending \<and>
   r_status (reservations (snd (borrow reserved (reader 2) 0 1000 ''QRS789'')) ! 0) = Fulfilled \<and>
   b_status (borrowings (snd (borrow reserved (reader 2) 0 1000 ''QRS789'')) ! length (borrowings reserved)) = Pending \<and>
   r_status (reservations
      (run (snd (borrow reserved (reader 2) 0 1000 ''QRS789''))
         [Borrow (reader 1) 0 1100 ''ABC123'', Verify 1 ''ABC123'' 1200, Verify 2 ''QRS789'' 1300]) ! 0) = Fulfilled \<and>
   fst (step (run (snd (borrow reserved (reader 2) 0 1000 ''QRS789''))
         [Borrow (reader 1) 0 1100 ''ABC123'', Verify 1 ''ABC123'' 1200]) (Verify 2 ''QRS789'' 1300)) = NoLongerAvailable"
proof -
  have 1: "lookup (books reserved) 0 = Some (books reserved ! 0)" by code_simp
  have 2: "is_available (books reserved ! 0)" by code_simp
  have 3: "can_borrow (reader 2)" by code_simp
  have 4: "first_index (\<lambda>b. b_user_id b = uid (reader 2) \<and> b_book_id b = 0 \<and> b_status b = Borrowed)
             (borrowings reserved) = None" by code_simp
  have 5: "first_index (\<lambda>r. r_user_id r = uid (reader 2) \<and> r_book_id r = 0 \<and> r_status r = RPending)
             (reservations reserved) = Some 0" by code_simp
  note t = own_reservation_fulfilled_at_request[OF 1 2 3 4 5 surjective_pairing,
      of 1000 "''QRS789''" 2 "''QRS789''" 1300
         "[Borrow (reader 1) 0 1100 ''ABC123'', Verify 1 ''ABC123'' 1200, Verify 2 ''QRS789'' 1300]"]
  have before: "r_status (reservations reserved ! 0) = RPending" by code_simp
  have race: "fst (step (run (snd (borrow reserved (reader 2) 0 1000 ''QRS789''))
         [Borrow (reader 1) 0 1100 ''ABC123'', Verify 1 ''ABC123'' 1200]) (Verify 2 ''QRS789'' 1300)) = NoLongerAvailable"
    by code_simp
  note a = t[THEN conjunct1, THEN conjunct2, THEN conjunct2, THEN conjunct1]
  note b = t[THEN conjunct1, THEN conjunct2, THEN conjunct2, THEN conjunct2, THEN conjunct1]
  note c = t[THEN conjunct2, THEN conjunct2]
  show ?thesis
    by (rule conjI[OF before conjI[OF a conjI[OF b conjI[OF c race]]]])
qed

subsection \<open>Finalising a return\<close>

lemma sort_key_head_least:
  assumes "sort_key f xs = i # rest"
  shows "i \<in> set xs \<and> (\<forall>j\<in>set xs. f i \<le> f j)"
proof -
  have "set (sort_key f xs) = set xs" by simp
  with assms have mem: "set xs = insert i (set rest)" by simp
  have "sorted (map f (sort_key f xs))" by (rule sorted_sort_key)
  with assms have "\<forall>j\<in>set rest. f i \<le> f j" by simp
  with mem show ?thesis by auto
qed

lemma sort_key_Nil_iff:
  "sort_key f xs = [] \<longleftrightarrow> xs = []"
  using length_sort[of f xs] by (metis length_0_conv)

lemma next_reservation_Some:
  assumes "next_reservation rs bk = Some i"
  shows "i < length rs \<and> r_book_id (rs ! i) = bk \<and> r_status (rs ! i) = RPending \<and>
         (\<forall>j<length rs. r_book_id (rs ! j) = bk \<and> r_status (rs ! j) = RPending \<longrightarrow>
            r_created_at (rs ! i) \<le> r_created_at (rs ! j))"
proof -
  let ?c = "filter (\<lambda>i. r_book_id (rs ! i) = bk \<and> r_status (rs ! i) = RPending) [0..<length rs]"
  from assms obtain rest where "sort_key (\<lambda>i. r_created_at (rs ! i)) ?c = i # rest"
    by (auto simp: next_reservation_def split: list.splits)
  from sort_key_head_least[OF this] show ?thesis by auto
qed

lemma next_reservation_None:
  "next_reservation rs bk = None \<longleftrightarrow>
     (\<forall>j<length rs. \<not> (r_book_id (rs ! j) = bk \<and> r_status (rs ! j) = RPending))"
proof -
  let ?c = "filter (\<lambda>i. r_book_id (rs ! i) = bk \<and> r_status (rs ! i) = RPending) [0..<length rs]"
  have "next_reservation rs bk = None \<longleftrightarrow> sort_key (\<lambda>i. r_created_at (rs ! i)) ?c = []"
    by (simp add: next_reservation_def split: list.splits)
  also have "\<dots> \<longleftrightarrow> ?c = []" by (rule sort_key_Nil_iff)
  also have "\<dots> \<longleftrightarrow> (\<forall>j<length rs. \<not> (r_book_id (rs ! j) = bk \<and> r_status (rs ! j) = RPending))"
    by (auto simp: filter_empty_conv)
  finally show ?thesis .
qed

text \<open>
  C3. The confirmation of a return code (with its borrowing and book present) succeeds, sets the
  borrowing's return date to the time of the confirmation, its fine to the value of
  \<^verbatim>\<open>calculate_fine()\<close> and its status to returned, and raises the book's \<open>available_copies\<close> by
  exactly one. If the book has no pending reservation, no reservation and no notification is
  written. Otherwise exactly one reservation is written: a pending reservation of the book whose
  \<open>created_at\<close> is least among them; its expiry date becomes the confirmation time plus three
  days, it is marked notified, and one notification is added for its owner.
\<close>

theorem return_finalisation:
  assumes found: "find_verification s u (upper (strip raw)) = Some vi"
    and len: "length (upper (strip raw)) = 6"
    and fresh: "\<not> is_verified (verifications s ! vi)"
    and live: "\<not> is_expired (verifications s ! vi) now"
    and tt: "transaction_type (verifications s ! vi) = TReturn"
    and b: "lookup (borrowings s) (borrowing_id (verifications s ! vi)) = Some b"
    and bk: "lookup (books s) (b_book_id b) = Some bk"
    and res: "verify_transaction_code s u raw now = (out, s')"
  shows "(out = VerifiedOk TReturn \<and>
          borrowings s' = (borrowings s)[borrowing_id (verifications s ! vi) :=
             b\<lparr>return_date := Some now,
               fine_amount := calculate_fine (b\<lparr>return_date := Some now\<rparr>) now,
               b_status := Returned\<rparr>] \<and>
          books s' = (books s)[b_book_id b := bk\<lparr>available_copies := available_copies bk + 1\<rparr>] \<and>
          available_copies (books s' ! b_book_id b) = available_copies bk + 1) \<and>
         (next_reservation (reservations s) (b_book_id b) = None \<longleftrightarrow>
            (\<forall>j<length (reservations s).
               \<not> (r_book_id (reservations s ! j) = b_book_id b \<and>
                  r_status (reservations s ! j) = RPending))) \<and>
         (next_reservation (reservations s) (b_book_id b) = None \<longrightarrow>
            reservations s' = reservations s \<and> notifications s' = notifications s) \<and>
         (next_reservation (reservations s) (b_book_id b) = Some ri \<longrightarrow>
            (ri < length (reservations s) \<and>
             r_book_id (reservations s ! ri) = b_book_id b \<and>
             r_status (reservations s ! ri) = RPending \<and>
             (\<forall>j<length (reservations s).
                r_book_id (reservations s ! j) = b_book_id b \<and>
                r_status (reservations s ! j) = RPending \<longrightarrow>
                  r_created_at (reservations s ! ri) \<le> r_created_at (reservations s ! j))) \<and>
            reservations s' = (reservations s)[ri :=
               (reservations s ! ri)\<lparr>expiry_date := Some (now + 3 * 86400), notified := True\<rparr>] \<and>
            notifications s' = notifications s @
               [\<lparr>n_user_id = r_user_id (reservations s ! ri), n_type = NReservation, related_id = None\<rparr>])"
proof -
  from b have lt: "borrowing_id (verifications s ! vi) < length (borrowings s)"
    and b_eq: "borrowings s ! borrowing_id (verifications s ! vi) = b"
    by (auto simp: lookup_def split: if_splits)
  from bk have lt': "b_book_id b < length (books s)" and bk_eq: "books s ! b_book_id b = bk"
    by (auto simp: lookup_def split: if_splits)
  have run: "verify_transaction_code s u raw now =
               finalize_return s (mark_verified s vi now) (borrowing_id (verifications s ! vi)) now"
    using verify_attempt[OF found len fresh live] lt tt by simp
  have core: "out = VerifiedOk TReturn \<and>
          borrowings s' = (borrowings s)[borrowing_id (verifications s ! vi) :=
             b\<lparr>return_date := Some now,
               fine_amount := calculate_fine (b\<lparr>return_date := Some now\<rparr>) now,
               b_status := Returned\<rparr>] \<and>
          books s' = (books s)[b_book_id b := bk\<lparr>available_copies := available_copies bk + 1\<rparr>] \<and>
          available_copies (books s' ! b_book_id b) = available_copies bk + 1"
    using res run b_eq bk lt'
    by (auto simp: finalize_return_def commit_and_flash_def mark_verified_def Let_def
        split: option.splits)
  have none: "next_reservation (reservations s) (b_book_id b) = None \<longrightarrow>
            reservations s' = reservations s \<and> notifications s' = notifications s"
    using res run b_eq bk lt'
    by (auto simp: finalize_return_def commit_and_flash_def mark_verified_def Let_def)
  have some: "next_reservation (reservations s) (b_book_id b) = Some ri \<longrightarrow>
            (ri < length (reservations s) \<and>
             r_book_id (reservations s ! ri) = b_book_id b \<and>
             r_status (reservations s ! ri) = RPending \<and>
             (\<forall>j<length (reservations s).
                r_book_id (reservations s ! j) = b_book_id b \<and>
                r_status (reservations s ! j) = RPending \<longrightarrow>
                  r_created_at (reservations s ! ri) \<le> r_created_at (reservations s ! j))) \<and>
            reservations s' = (reservations s)[ri :=
               (reservations s ! ri)\<lparr>expiry_date := Some (now + 3 * 86400), notified := True\<rparr>] \<and>
            notifications s' = notifications s @
               [\<lparr>n_user_id = r_user_id (reservations s ! ri), n_type = NReservation, related_id = None\<rparr>]"
  proof
    assume nr: "next_reservation (reservations s) (b_book_id b) = Some ri"
    have "reservations s' = (reservations s)[ri :=
               (reservations s ! ri)\<lparr>expiry_date := Some (now + 3 * 86400), notified := True\<rparr>] \<and>
            notifications s' = notifications s @
               [\<lparr>n_user_id = r_user_id (reservations s ! ri), n_type = NReservation, related_id = None\<rparr>]"
      using res run b_eq bk lt' nr
      by (auto simp: finalize_return_def commit_and_flash_def mark_verified_def Let_def timedelta_def)
    with next_reservation_Some[OF nr] show "(ri < length (reservations s) \<and>
             r_book_id (reservations s ! ri) = b_book_id b \<and>
             r_status (reservations s ! ri) = RPending \<and>
             (\<forall>j<length (reservations s).
                r_book_id (reservations s ! j) = b_book_id b \<and>
                r_status (reservations s ! j) = RPending \<longrightarrow>
                  r_created_at (reservations s ! ri) \<le> r_created_at (reservations s ! j))) \<and>
            reservations s' = (reservations s)[ri :=
               (reservations s ! ri)\<lparr>expiry_date := Some (now + 3 * 86400), notified := True\<rparr>] \<and>
            notifications s' = notifications s @
               [\<lparr>n_user_id = r_user_id (reservations s ! ri), n_type = NReservation, related_id = None\<rparr>]"
      by (intro conjI) simp_all
  qed
  show ?thesis
    by (rule conjI[OF core conjI[OF next_reservation_None conjI[OF none some]]])
qed

theorem return_finalisation_witness:
  "(fst (verify_transaction_code returning 1 ''ret001'' 1641600) = VerifiedOk TReturn \<and>
    borrowings (snd (verify_transaction_code returning 1 ''ret001'' 1641600)) =
      (borrowings returning)[borrowing_id (verifications returning ! 0) :=
         (borrowings returning ! 0)\<lparr>return_date := Some 1641600,
            fine_amount := calculate_fine ((borrowings returning ! 0)\<lparr>return_date := Some 1641600\<rparr>) 1641600,
            b_status := Returned\<rparr>] \<and>
    books (snd (verify_transaction_code returning 1 ''ret001'' 1641600)) =
      (books returning)[b_book_id (borrowings returning ! 0) :=
         (books returning ! 0)\<lparr>available_copies := available_copies (books returning ! 0) + 1\<rparr>] \<and>
    available_copies (books (snd (verify_transaction_code returning 1 ''ret001'' 1641600)) !
        b_book_id (borrowings returning ! 0)) = available_copies (books returning ! 0) + 1) \<and>
   next_reservation (reservations returning) 0 = Some 1 \<and>
   reservations (snd (verify_transaction_code returning 1 ''ret001'' 1641600)) =
     (reservations returning)[1 :=
        (reservations returning ! 1)\<lparr>expiry_date := Some (1641600 + 3 * 86400), notified := True\<rparr>] \<and>
   notifications (snd (verify_transaction_code returning 1 ''ret001'' 1641600)) =
     notifications returning @
       [\<lparr>n_user_id = r_user_id (reservations returning ! 1), n_type = NReservation, related_id = None\<rparr>]"
proof -
  have 1: "find_verification returning 1 (upper (strip ''ret001'')) = Some 0" by code_simp
  have 2: "length (upper (strip ''ret001'')) = 6" by code_simp
  have 3: "\<not> is_verified (verifications returning ! 0)" by code_simp
  have 4: "\<not> is_expired (verifications returning ! 0) 1641600" by code_simp
  have 5: "transaction_type (verifications returning ! 0) = TReturn" by code_simp
  have 6: "lookup (borrowings returning) (borrowing_id (verifications returning ! 0)) =
             Some (borrowings returning ! 0)" by code_simp
  have 7: "lookup (books returning) (b_book_id (borrowings returning ! 0)) = Some (books returning ! 0)"
    by code_simp
  have bk: "b_book_id (borrowings returning ! 0) = 0" by code_simp
  have nr: "next_reservation (reservations returning) 0 = Some 1" by code_simp
  note t = return_finalisation[OF 1 2 3 4 5 6 7 surjective_pairing, of 1, unfolded bk]
  note promoted = t[THEN conjunct2, THEN conjunct2, THEN conjunct2, THEN mp, OF nr, THEN conjunct2]
  show ?thesis
    using t[THEN conjunct1] nr promoted unfolding bk
    by (intro conjI) (elim conjE, assumption)+
qed

subsection \<open>Fines\<close>

lemma date_of_mono: "a \<le> b \<Longrightarrow> date_of a \<le> date_of b"
  by (simp add: date_of_def zdiv_mono1)

lemma date_of_plus_days: "date_of (t + n * 86400) = date_of t + n"
  by (simp add: date_of_def)

lemma calculate_fine_guarded:
  "calculate_fine b now =
     (if due_date b < now then (date_of now - date_of (due_date b)) * 5 else 0)"
proof (cases "due_date b < now")
  case True
  then have "date_of (due_date b) \<le> date_of now" by (intro date_of_mono) simp
  with True show ?thesis by (simp add: calculate_fine_def fine_per_day_def)
next
  case False
  then have "date_of now \<le> date_of (due_date b)" by (intro date_of_mono) simp
  with False show ?thesis by (simp add: calculate_fine_def fine_per_day_def)
qed

lemma outstanding_rows:
  "map fst (outstanding_fines s u now) =
     filter (\<lambda>b. b_user_id b = u \<and> return_date b = None \<and> due_date b < now) (borrowings s)"
  by (simp add: outstanding_fines_def comp_def)

lemma total_fines_sum:
  "total_fines s u now =
     sum_list (map (\<lambda>b. calculate_fine b now)
       (filter (\<lambda>b. b_user_id b = u \<and> return_date b = None) (borrowings s)))"
proof -
  have "sum_list (map (\<lambda>(b, d, a). a)
          (map (\<lambda>b. (b, days_overdue b now, days_overdue b now * 5))
             (filter (\<lambda>b. b_user_id b = u \<and> return_date b = None \<and> due_date b < now) bs))) =
        sum_list (map (\<lambda>b. calculate_fine b now)
          (filter (\<lambda>b. b_user_id b = u \<and> return_date b = None) bs))" for bs
    by (induction bs) (simp_all add: calculate_fine_guarded days_overdue_def)
  then show ?thesis by (simp add: total_fines_def outstanding_fines_def)
qed

text \<open>
  C9. The fine of a borrowing is the number of whole days from the date of the due date to the
  current date, times 5, and 0 when the due date has not passed; it is never negative, it is 25
  five days after the due date and 0 for a return on time. This holds of \<^verbatim>\<open>calculate_fine()\<close>,
  which sets the fine of a return, and of the routes that compute the fine themselves:
  \<^verbatim>\<open>fines\<close> lists exactly the reader's borrowings that are not returned and past their due date,
  each with that number of days and that amount, and its total is the sum of the fines of all
  the reader's unreturned borrowings; \<^verbatim>\<open>pay_fine\<close> charges that amount to a borrowing that is
  not returned and past its due date, 25 five days after the due date, and charges nothing
  otherwise.
\<close>

theorem fine_is_five_per_day_overdue:
  "calculate_fine b now =
     (if due_date b < now then (date_of now - date_of (due_date b)) * 5 else 0) \<and>
   (due_date b < now \<longrightarrow> 0 \<le> date_of now - date_of (due_date b)) \<and>
   calculate_fine b (due_date b + 5 * 86400) = 25 \<and>
   (now \<le> due_date b \<longrightarrow> calculate_fine b now = 0) \<and>
   map fst (outstanding_fines s u now) =
     filter (\<lambda>b. b_user_id b = u \<and> return_date b = None \<and> due_date b < now) (borrowings s) \<and>
   ((b', d, a) \<in> set (outstanding_fines s u now) \<longleftrightarrow>
      b' \<in> set (borrowings s) \<and> b_user_id b' = u \<and> return_date b' = None \<and> due_date b' < now \<and>
      d = date_of now - date_of (due_date b') \<and> a = d * 5) \<and>
   ((b', d, a) \<in> set (outstanding_fines s u now) \<longrightarrow> 0 \<le> a \<and> a = calculate_fine b' now) \<and>
   total_fines s u now =
     sum_list (map (\<lambda>b. calculate_fine b now)
       (filter (\<lambda>b. b_user_id b = u \<and> return_date b = None) (borrowings s))) \<and>
   (lookup (borrowings s) i = Some b \<and> b_user_id b = u \<and> return_date b = None \<and> due_date b < now \<longrightarrow>
      pay_fine s u i now =
        (FinePaid ((date_of now - date_of (due_date b)) * 5),
         s\<lparr>borrowings := (borrowings s)
              [i := b\<lparr>fine_amount := (date_of now - date_of (due_date b)) * 5, fine_paid := True\<rparr>]\<rparr>)) \<and>
   (lookup (borrowings s) i = Some b \<and> b_user_id b = u \<and> return_date b = None \<longrightarrow>
      pay_fine s u i (due_date b + 5 * 86400) =
        (FinePaid 25,
         s\<lparr>borrowings := (borrowings s)[i := b\<lparr>fine_amount := 25, fine_paid := True\<rparr>]\<rparr>)) \<and>
   (lookup (borrowings s) i = Some b \<and> b_user_id b = u \<and> \<not> (return_date b = None \<and> due_date b < now) \<longrightarrow>
      pay_fine s u i now = (NoFineToPay, s))"
proof -
  note guarded = calculate_fine_guarded[of b now]
  have nonneg: "due_date b < now \<longrightarrow> 0 \<le> date_of now - date_of (due_date b)"
  proof
    assume "due_date b < now"
    then have "date_of (due_date b) \<le> date_of now" by (intro date_of_mono) simp
    then show "0 \<le> date_of now - date_of (due_date b)" by simp
  qed
  have five: "calculate_fine b (due_date b + 5 * 86400) = 25"
    using date_of_plus_days[of "due_date b" 5]
    by (simp add: calculate_fine_def fine_per_day_def)
  have on_time: "now \<le> due_date b \<longrightarrow> calculate_fine b now = 0"
    by (simp add: calculate_fine_guarded)
  note rows = outstanding_rows[of s u now]
  have listed: "(b', d, a) \<in> set (outstanding_fines s u now) \<longleftrightarrow>
      b' \<in> set (borrowings s) \<and> b_user_id b' = u \<and> return_date b' = None \<and> due_date b' < now \<and>
      d = date_of now - date_of (due_date b') \<and> a = d * 5"
    by (auto simp: outstanding_fines_def days_overdue_def)
  have amount: "(b', d, a) \<in> set (outstanding_fines s u now) \<longrightarrow> 0 \<le> a \<and> a = calculate_fine b' now"
  proof
    assume "(b', d, a) \<in> set (outstanding_fines s u now)"
    with listed have late: "due_date b' < now" and a: "a = (date_of now - date_of (due_date b')) * 5"
      by simp_all
    from late have "date_of (due_date b') \<le> date_of now" by (intro date_of_mono) simp
    with late a show "0 \<le> a \<and> a = calculate_fine b' now"
      by (simp add: calculate_fine_guarded)
  qed
  note total = total_fines_sum[of s u now]
  have paid: "lookup (borrowings s) i = Some b \<and> b_user_id b = u \<and> return_date b = None \<and> due_date b < now \<longrightarrow>
      pay_fine s u i now =
        (FinePaid ((date_of now - date_of (due_date b)) * 5),
         s\<lparr>borrowings := (borrowings s)
              [i := b\<lparr>fine_amount := (date_of now - date_of (due_date b)) * 5, fine_paid := True\<rparr>]\<rparr>)"
    by (simp add: pay_fine_def days_overdue_def Let_def)
  have paid5: "lookup (borrowings s) i = Some b \<and> b_user_id b = u \<and> return_date b = None \<longrightarrow>
      pay_fine s u i (due_date b + 5 * 86400) =
        (FinePaid 25,
         s\<lparr>borrowings := (borrowings s)[i := b\<lparr>fine_amount := 25, fine_paid := True\<rparr>]\<rparr>)"
    using date_of_plus_days[of "due_date b" 5]
    by (simp add: pay_fine_def days_overdue_def Let_def)
  have unpaid: "lookup (borrowings s) i = Some b \<and> b_user_id b = u \<and> \<not> (return_date b = None \<and> due_date b < now) \<longrightarrow>
      pay_fine s u i now = (NoFineToPay, s)"
    by (auto simp: pay_fine_def)
  show ?thesis
    by (rule conjI[OF guarded conjI[OF nonneg conjI[OF five conjI[OF on_time conjI[OF rows
          conjI[OF listed conjI[OF amount conjI[OF total conjI[OF paid conjI[OF paid5 unpaid]]]]]]]]]])
qed

theorem fine_witness:
  "calculate_fine (borrowings returning ! 0) (due_date (borrowings returning ! 0) + 5 * 86400) = 25 \<and>
   calculate_fine (borrowings returning ! 0) 1209600 = 0 \<and>
   fine_amount (borrowings (snd (verify_transaction_code returning 1 ''ret001'' 1641600)) ! 0) = 25 \<and>
   map fst (outstanding_fines returning 1 1641600) = [borrowings returning ! 0] \<and>
   (borrowings returning ! 0, 5, 25) \<in> set (outstanding_fines returning 1 1641600) \<and>
   total_fines returning 1 1641600 = 25 \<and>
   outstanding_fines returning 1 1209600 = [] \<and>
   pay_fine returning 1 0 (due_date (borrowings returning ! 0) + 5 * 86400) =
     (FinePaid 25,
      returning\<lparr>borrowings := (borrowings returning)
         [0 := (borrowings returning ! 0)\<lparr>fine_amount := 25, fine_paid := True\<rparr>]\<rparr>) \<and>
   pay_fine returning 1 0 1209600 = (NoFineToPay, returning)"
proof -
  have on_time: "(1209600::int) \<le> due_date (borrowings returning ! 0)" by code_simp
  have row: "lookup (borrowings returning) 0 = Some (borrowings returning ! 0) \<and>
             b_user_id (borrowings returning ! 0) = 1 \<and>
             return_date (borrowings returning ! 0) = None" by code_simp
  have not_due: "lookup (borrowings returning) 0 = Some (borrowings returning ! 0) \<and>
             b_user_id (borrowings returning ! 0) = 1 \<and>
             \<not> (return_date (borrowings returning ! 0) = None \<and>
                due_date (borrowings returning ! 0) < 1209600)" by code_simp
  have late: "borrowings returning ! 0 \<in> set (borrowings returning) \<and>
      b_user_id (borrowings returning ! 0) = 1 \<and> return_date (borrowings returning ! 0) = None \<and>
      due_date (borrowings returning ! 0) < 1641600 \<and>
      (5::int) = date_of 1641600 - date_of (due_date (borrowings returning ! 0)) \<and> (25::int) = 5 * 5"
    by code_simp
  have charged: "filter (\<lambda>b. b_user_id b = 1 \<and> return_date b = None \<and> due_date b < 1641600)
       (borrowings returning) = [borrowings returning ! 0]" by code_simp
  have sum: "sum_list (map (\<lambda>b. calculate_fine b 1641600)
       (filter (\<lambda>b. b_user_id b = 1 \<and> return_date b = None) (borrowings returning))) = 25"
    by code_simp
  have written: "fine_amount (borrowings (snd (verify_transaction_code returning 1 ''ret001'' 1641600)) ! 0) = 25"
    by code_simp
  have none: "outstanding_fines returning 1 1209600 = []" by code_simp
  note t = fine_is_five_per_day_overdue[of "borrowings returning ! 0" _ returning 1 "borrowings returning ! 0" 5 25 0]
  note five = t[of 0, THEN conjunct2, THEN conjunct2, THEN conjunct1]
  note zero = t[of 1209600, THEN conjunct2, THEN conjunct2, THEN conjunct2, THEN conjunct1, THEN mp, OF on_time]
  note rows = t[of 1641600, THEN conjunct2, THEN conjunct2, THEN conjunct2, THEN conjunct2, THEN conjunct1,
      unfolded charged]
  note listed = t[of 1641600, THEN conjunct2, THEN conjunct2, THEN conjunct2, THEN conjunct2, THEN conjunct2,
      THEN conjunct1, THEN iffD2, OF late]
  note total = t[of 1641600, THEN conjunct2, THEN conjunct2, THEN conjunct2, THEN conjunct2, THEN conjunct2,
      THEN conjunct2, THEN conjunct2, THEN conjunct1, unfolded sum]
  note paid = t[of 0, THEN conjunct2, THEN conjunct2, THEN conjunct2, THEN conjunct2, THEN conjunct2,
      THEN conjunct2, THEN conjunct2, THEN conjunct2, THEN conjunct2, THEN conjunct1, THEN mp, OF row]
  note unpaid = t[of 1209600, THEN conjunct2, THEN conjunct2, THEN conjunct2, THEN conjunct2, THEN conjunct2,
      THEN conjunct2, THEN conjunct2, THEN conjunct2, THEN conjunct2, THEN conjunct2, THEN mp, OF not_due]
  show ?thesis
    by (rule conjI[OF five conjI[OF zero conjI[OF written conjI[OF rows conjI[OF listed
          conjI[OF total conjI[OF none conjI[OF paid unpaid]]]]]]]])
qed

subsection \<open>Renewal\<close>

lemma renew_keeps_limit:
  "renewed_count b \<le> 2 \<Longrightarrow> renewed_count (snd (renew b now)) \<le> 2"
  by (simp add: renew_def can_renew_def)

text \<open>
  C7. For a borrowing in status borrowed (of the requesting reader, with at most the two renewals
  that \<^verbatim>\<open>renew()\<close> ever grants), the renewal request is refused, and nothing is written, when two
  renewals have been used or the due date has passed. Otherwise it succeeds: within the request
  itself the renewal count grows by exactly one and the due date by 14 days, and the renew code
  that the request creates is still unverified.
\<close>

theorem renewal_applies_at_request:
  assumes b: "lookup (borrowings s) bi = Some b"
    and own: "b_user_id b = u"
    and st: "b_status b = Borrowed"
    and bk: "b_book_id b < length (books s)"
    and rc: "renewed_count b \<le> 2"
    and res: "renew_book s u bi now code = (out, s')"
  shows "(renewed_count b = 2 \<or> due_date b < now \<longrightarrow>
            (out = CannotRenewOverdue \<or> out = RenewalLimit) \<and> s' = s) \<and>
         (\<not> (renewed_count b = 2 \<or> due_date b < now) \<longrightarrow>
            out = Renewed \<and>
            borrowings s' = (borrowings s)
              [bi := b\<lparr>due_date := due_date b + 14 * 86400, renewed_count := renewed_count b + 1\<rparr>] \<and>
            renewed_count (borrowings s' ! bi) = renewed_count b + 1 \<and>
            due_date (borrowings s' ! bi) = due_date b + 14 * 86400 \<and>
            verifications s' = verifications s @ [create_transaction_verification u bi TRenew code now] \<and>
            \<not> is_verified (verifications s' ! length (verifications s)))"
proof -
  from b have lt: "bi < length (borrowings s)" and b_eq: "borrowings s ! bi = b"
    by (auto simp: lookup_def split: if_splits)
  have refused: "renewed_count b = 2 \<or> due_date b < now \<longrightarrow>
            (out = CannotRenewOverdue \<or> out = RenewalLimit) \<and> s' = s"
    using b own st res
    by (auto simp: renew_book_def renew_def can_renew_def is_overdue_def split: if_splits)
  have granted: "\<not> (renewed_count b = 2 \<or> due_date b < now) \<longrightarrow>
            out = Renewed \<and>
            borrowings s' = (borrowings s)
              [bi := b\<lparr>due_date := due_date b + 14 * 86400, renewed_count := renewed_count b + 1\<rparr>] \<and>
            renewed_count (borrowings s' ! bi) = renewed_count b + 1 \<and>
            due_date (borrowings s' ! bi) = due_date b + 14 * 86400 \<and>
            verifications s' = verifications s @ [create_transaction_verification u bi TRenew code now] \<and>
            \<not> is_verified (verifications s' ! length (verifications s))"
    using b own st bk rc res lt
    by (auto simp: renew_book_def renew_def can_renew_def is_overdue_def Let_def timedelta_def
        create_transaction_verification_def)
  show ?thesis by (rule conjI[OF refused granted])
qed

theorem renewal_witness:
  "(fst (renew_book confirmed 1 0 5000 ''REN001'') = Renewed \<and>
    borrowings (snd (renew_book confirmed 1 0 5000 ''REN001'')) = (borrowings confirmed)
      [0 := (borrowings confirmed ! 0)
         \<lparr>due_date := due_date (borrowings confirmed ! 0) + 14 * 86400,
          renewed_count := renewed_count (borrowings confirmed ! 0) + 1\<rparr>] \<and>
    renewed_count (borrowings (snd (renew_book confirmed 1 0 5000 ''REN001'')) ! 0) =
      renewed_count (borrowings confirmed ! 0) + 1 \<and>
    due_date (borrowings (snd (renew_book confirmed 1 0 5000 ''REN001'')) ! 0) =
      due_date (borrowings confirmed ! 0) + 14 * 86400 \<and>
    verifications (snd (renew_book confirmed 1 0 5000 ''REN001'')) =
      verifications confirmed @ [create_transaction_verification 1 0 TRenew ''REN001'' 5000] \<and>
    \<not> is_verified (verifications (snd (renew_book confirmed 1 0 5000 ''REN001'')) !
          length (verifications confirmed))) \<and>
   ((fst (renew_book confirmed 1 0 1300000 ''REN001'') = CannotRenewOverdue \<or>
     fst (renew_book confirmed 1 0 1300000 ''REN001'') = RenewalLimit) \<and>
    snd (renew_book confirmed 1 0 1300000 ''REN001'') = confirmed)"
proof -
  have 1: "lookup (borrowings confirmed) 0 = Some (borrowings confirmed ! 0)" by code_simp
  have 2: "b_user_id (borrowings confirmed ! 0) = 1" by code_simp
  have 3: "b_status (borrowings confirmed ! 0) = Borrowed" by code_simp
  have 4: "b_book_id (borrowings confirmed ! 0) < length (books confirmed)" by code_simp
  have 5: "renewed_count (borrowings confirmed ! 0) \<le> 2" by code_simp
  have in_time: "\<not> (renewed_count (borrowings confirmed ! 0) = 2 \<or>
                      due_date (borrowings confirmed ! 0) < 5000)" by code_simp
  have late: "renewed_count (borrowings confirmed ! 0) = 2 \<or>
              due_date (borrowings confirmed ! 0) < 1300000" by code_simp
  note yes = renewal_applies_at_request[OF 1 2 3 4 5 surjective_pairing, of 5000 "''REN001''",
      THEN conjunct2, THEN mp, OF in_time]
  note no = renewal_applies_at_request[OF 1 2 3 4 5 surjective_pairing, of 1300000 "''REN001''",
      THEN conjunct1, THEN mp, OF late]
  show ?thesis by (rule conjI[OF yes no])
qed

subsection \<open>The copy counts stay within the stock\<close>

lemma sum_list_map_update:
  fixes f :: "'a \<Rightarrow> int"
  shows "i < length xs \<Longrightarrow> sum_list (map f (xs[i := y])) = sum_list (map f xs) - f (xs ! i) + f y"
proof (induction xs arbitrary: i)
  case Nil
  then show ?case by simp
next
  case (Cons x xs)
  then show ?case by (cases i) auto
qed

lemma lent_out_append: "lent_out (bs @ [b]) k = lent_out bs k + holds_copy k b"
  by (simp add: lent_out_def)

lemma lent_out_update:
  "i < length bs \<Longrightarrow> lent_out (bs[i := b]) k = lent_out bs k - holds_copy k (bs ! i) + holds_copy k b"
  by (simp add: lent_out_def sum_list_map_update)

lemma copies_accounted_iff:
  "copies_accounted bks bs \<longleftrightarrow>
     (\<forall>k<length bks. 0 \<le> available_copies (bks ! k) \<and>
        available_copies (bks ! k) + lent_out bs k \<le> total_copies (bks ! k))"
  by (auto simp: copies_accounted_def list_all_iff)

lemma lent_out_nonneg: "0 \<le> lent_out bs k"
  unfolding lent_out_def by (induction bs) (simp_all add: holds_copy_def)

lemma copies_accounted_in_range:
  assumes "copies_accounted (books s) (borrowings s)"
  shows "copies_in_range s"
proof -
  have "0 \<le> available_copies bk \<and> available_copies bk \<le> total_copies bk"
    if "bk \<in> set (books s)" for bk
  proof -
    from that obtain k where k: "k < length (books s)" and bk: "books s ! k = bk"
      by (auto simp: in_set_conv_nth)
    from assms k have "0 \<le> available_copies (books s ! k) \<and>
        available_copies (books s ! k) + lent_out (borrowings s) k \<le> total_copies (books s ! k)"
      by (simp add: copies_accounted_iff)
    with lent_out_nonneg[of "borrowings s" k] bk show ?thesis by simp
  qed
  then show ?thesis by (simp add: copies_in_range_def list_all_iff)
qed

lemma accounted_append:
  "copies_accounted bks bs \<Longrightarrow> b_status b = Pending \<Longrightarrow> copies_accounted bks (bs @ [b])"
  by (simp add: copies_accounted_iff lent_out_append holds_copy_def)

lemma accounted_update_same:
  assumes "copies_accounted bks bs" and "i < length bs"
    and "b_status b = b_status (bs ! i)" and "b_book_id b = b_book_id (bs ! i)"
  shows "copies_accounted bks (bs[i := b])"
  using assms by (simp add: copies_accounted_iff lent_out_update holds_copy_def)

lemma accounted_update_waiting:
  assumes "copies_accounted bks bs" and "i < length bs"
    and "b_status (bs ! i) = Borrowed" and "b_status b = PendingReturn"
    and "b_book_id b = b_book_id (bs ! i)"
  shows "copies_accounted bks (bs[i := b])"
  using assms by (simp add: copies_accounted_iff lent_out_update holds_copy_def)

lemma accounted_take:
  assumes acc: "copies_accounted bks bs" and i: "i < length bs"
    and st: "b_status (bs ! i) = Pending \<or> b_status (bs ! i) = PendingVerification"
    and k: "b_book_id (bs ! i) < length bks"
    and pos: "0 < available_copies (bks ! b_book_id (bs ! i))"
    and b: "b_status b = Borrowed" "b_book_id b = b_book_id (bs ! i)"
  shows "copies_accounted
           (bks[b_book_id (bs ! i) := (bks ! b_book_id (bs ! i))
                  \<lparr>available_copies := available_copies (bks ! b_book_id (bs ! i)) - 1\<rparr>])
           (bs[i := b])"
  unfolding copies_accounted_iff
proof (intro allI impI)
  fix k
  assume "k < length (bks[b_book_id (bs ! i) := (bks ! b_book_id (bs ! i))
                  \<lparr>available_copies := available_copies (bks ! b_book_id (bs ! i)) - 1\<rparr>])"
  then have kl: "k < length bks" by simp
  with acc have old: "0 \<le> available_copies (bks ! k)"
    "available_copies (bks ! k) + lent_out bs k \<le> total_copies (bks ! k)"
    by (simp_all add: copies_accounted_iff)
  show "0 \<le> available_copies (bks[b_book_id (bs ! i) := (bks ! b_book_id (bs ! i))
                  \<lparr>available_copies := available_copies (bks ! b_book_id (bs ! i)) - 1\<rparr>] ! k) \<and>
        available_copies (bks[b_book_id (bs ! i) := (bks ! b_book_id (bs ! i))
                  \<lparr>available_copies := available_copies (bks ! b_book_id (bs ! i)) - 1\<rparr>] ! k) +
          lent_out (bs[i := b]) k
        \<le> total_copies (bks[b_book_id (bs ! i) := (bks ! b_book_id (bs ! i))
                  \<lparr>available_copies := available_copies (bks ! b_book_id (bs ! i)) - 1\<rparr>] ! k)"
  proof (cases "k = b_book_id (bs ! i)")
    case True
    with old pos kl i st b show ?thesis
      by (auto simp: lent_out_update holds_copy_def)
  next
    case False
    with old kl i st b show ?thesis
      by (auto simp: lent_out_update holds_copy_def)
  qed
qed

lemma accounted_give_back:
  assumes acc: "copies_accounted bks bs" and i: "i < length bs"
    and st: "b_status (bs ! i) = PendingReturn"
    and k: "b_book_id (bs ! i) < length bks"
    and b: "b_status b = Returned" "b_book_id b = b_book_id (bs ! i)"
  shows "copies_accounted
           (bks[b_book_id (bs ! i) := (bks ! b_book_id (bs ! i))
                  \<lparr>available_copies := available_copies (bks ! b_book_id (bs ! i)) + 1\<rparr>])
           (bs[i := b])"
  unfolding copies_accounted_iff
proof (intro allI impI)
  fix k
  assume "k < length (bks[b_book_id (bs ! i) := (bks ! b_book_id (bs ! i))
                  \<lparr>available_copies := available_copies (bks ! b_book_id (bs ! i)) + 1\<rparr>])"
  then have kl: "k < length bks" by simp
  with acc have old: "0 \<le> available_copies (bks ! k)"
    "available_copies (bks ! k) + lent_out bs k \<le> total_copies (bks ! k)"
    by (simp_all add: copies_accounted_iff)
  show "0 \<le> available_copies (bks[b_book_id (bs ! i) := (bks ! b_book_id (bs ! i))
                  \<lparr>available_copies := available_copies (bks ! b_book_id (bs ! i)) + 1\<rparr>] ! k) \<and>
        available_copies (bks[b_book_id (bs ! i) := (bks ! b_book_id (bs ! i))
                  \<lparr>available_copies := available_copies (bks ! b_book_id (bs ! i)) + 1\<rparr>] ! k) +
          lent_out (bs[i := b]) k
        \<le> total_copies (bks[b_book_id (bs ! i) := (bks ! b_book_id (bs ! i))
                  \<lparr>available_copies := available_copies (bks ! b_book_id (bs ! i)) + 1\<rparr>] ! k)"
  proof (cases "k = b_book_id (bs ! i)")
    case True
    with old kl i st b show ?thesis
      by (auto simp: lent_out_update holds_copy_def)
  next
    case False
    with old kl i st b show ?thesis
      by (auto simp: lent_out_update holds_copy_def)
  qed
qed

lemma filter_update_out:
  "\<not> P y \<Longrightarrow> \<not> P (xs ! i) \<Longrightarrow> filter P (xs[i := y]) = filter P xs"
proof (induction xs arbitrary: i)
  case Nil
  then show ?case by simp
next
  case (Cons x xs)
  then show ?case by (cases i) auto
qed

lemma filter_update_remove:
  assumes "i < length xs" and "\<not> P y"
  shows "filter P (xs[i := y]) = filter P (take i xs) @ filter P (drop (Suc i) xs)"
  using assms by (simp add: upd_conv_take_nth_drop)

lemma filter_split_at:
  assumes "i < length xs" and "P (xs ! i)"
  shows "filter P xs = filter P (take i xs) @ xs ! i # filter P (drop (Suc i) xs)"
proof -
  from assms(1) have "xs = take i xs @ xs ! i # drop (Suc i) xs"
    by (rule id_take_nth_drop)
  then have "filter P xs = filter P (take i xs @ xs ! i # drop (Suc i) xs)" by simp
  with assms(2) show ?thesis by simp
qed

lemma nth_update_any:
  "xs[i := y] ! j = (if i = j \<and> i < length xs then y else xs ! j)"
  by (cases "i < length xs") (simp_all add: nth_list_update list_update_beyond)

lemma sound_iff:
  "return_codes_sound bs vs \<longleftrightarrow>
     (\<forall>v\<in>set vs. open_return v \<longrightarrow>
        borrowing_id v < length bs \<and> b_status (bs ! borrowing_id v) = PendingReturn) \<and>
     distinct (map borrowing_id (filter open_return vs))"
  by (auto simp: return_codes_sound_def list_all_iff)

lemma sound_new_code:
  "return_codes_sound bs vs \<Longrightarrow> \<not> open_return v \<Longrightarrow> return_codes_sound bs (vs @ [v])"
  by (simp add: sound_iff)

lemma sound_new_borrowing:
  "return_codes_sound bs vs \<Longrightarrow> return_codes_sound (bs @ [b]) vs"
  by (auto simp: sound_iff nth_append)

lemma sound_update_same:
  assumes "return_codes_sound bs vs" and "b_status b = b_status (bs ! i)"
  shows "return_codes_sound (bs[i := b]) vs"
  using assms by (auto simp: sound_iff nth_update_any)

lemma sound_update_free:
  assumes "return_codes_sound bs vs" and "b_status (bs ! i) \<noteq> PendingReturn"
  shows "return_codes_sound (bs[i := b]) vs"
  using assms by (auto simp: sound_iff nth_update_any)

lemma sound_return_requested:
  assumes s: "return_codes_sound bs vs" and i: "i < length bs"
    and old: "b_status (bs ! i) \<noteq> PendingReturn"
    and new: "b_status b = PendingReturn"
    and v: "open_return v" "borrowing_id v = i"
  shows "return_codes_sound (bs[i := b]) (vs @ [v])"
proof -
  from s old have "i \<notin> borrowing_id ` set (filter open_return vs)"
    by (auto simp: sound_iff)
  with s i new v show ?thesis
    by (auto simp: sound_iff nth_list_update)
qed

lemma sound_mark_other:
  assumes "return_codes_sound bs vs" and "\<not> open_return (vs ! j)" and "\<not> open_return v"
  shows "return_codes_sound bs (vs[j := v])"
proof -
  have "filter open_return (vs[j := v]) = filter open_return vs"
    using assms(2,3) by (simp add: filter_update_out)
  with assms(1) show ?thesis by (simp add: return_codes_sound_def)
qed

lemma sound_mark_return:
  assumes s: "return_codes_sound bs vs" and j: "j < length vs"
    and o: "open_return (vs ! j)" and v: "\<not> open_return v"
  shows "return_codes_sound (bs[borrowing_id (vs ! j) := b]) (vs[j := v])"
proof -
  let ?A = "filter open_return (take j vs)" and ?B = "filter open_return (drop (Suc j) vs)"
  have before: "filter open_return vs = ?A @ vs ! j # ?B"
    using j o by (rule filter_split_at[of j vs open_return])
  have after: "filter open_return (vs[j := v]) = ?A @ ?B"
    using j v by (rule filter_update_remove[of j vs open_return v])
  from s have all: "\<forall>w\<in>set (filter open_return vs).
      borrowing_id w < length bs \<and> b_status (bs ! borrowing_id w) = PendingReturn"
    and d: "distinct (map borrowing_id (filter open_return vs))"
    by (simp_all add: return_codes_sound_def list_all_iff)
  from d before have d2: "distinct (map borrowing_id (?A @ vs ! j # ?B))" by simp
  then have notin: "borrowing_id (vs ! j) \<notin> borrowing_id ` set ?A"
      "borrowing_id (vs ! j) \<notin> borrowing_id ` set ?B"
    and d': "distinct (map borrowing_id (?A @ ?B))"
    by auto
  have other: "\<forall>w\<in>set (?A @ ?B). borrowing_id w \<noteq> borrowing_id (vs ! j)"
  proof
    fix w assume "w \<in> set (?A @ ?B)"
    then have "borrowing_id w \<in> borrowing_id ` set ?A \<or> borrowing_id w \<in> borrowing_id ` set ?B"
      by (simp only: set_append Un_iff) (blast intro: imageI)
    with notin show "borrowing_id w \<noteq> borrowing_id (vs ! j)" by metis
  qed
  from all before have all': "\<forall>w\<in>set (?A @ ?B).
      borrowing_id w < length bs \<and> b_status (bs ! borrowing_id w) = PendingReturn"
    by auto
  have "\<forall>w\<in>set (?A @ ?B). borrowing_id w < length (bs[borrowing_id (vs ! j) := b]) \<and>
      b_status (bs[borrowing_id (vs ! j) := b] ! borrowing_id w) = PendingReturn"
  proof
    fix w assume w: "w \<in> set (?A @ ?B)"
    with other have "borrowing_id w \<noteq> borrowing_id (vs ! j)" by blast
    with all' w show "borrowing_id w < length (bs[borrowing_id (vs ! j) := b]) \<and>
      b_status (bs[borrowing_id (vs ! j) := b] ! borrowing_id w) = PendingReturn"
      by (simp add: nth_list_update)
  qed
  with d' show ?thesis
    unfolding return_codes_sound_def after list_all_iff by blast
qed

lemma borrow_consistent:
  assumes "consistent s"
  shows "consistent (snd (borrow s cu bid now code))"
proof (cases "fst (borrow s cu bid now code) = BorrowSubmitted")
  case False
  then have "snd (borrow s cu bid now code) = s"
    by (auto simp: borrow_def Let_def split: option.splits if_splits)
  with assms show ?thesis by simp
next
  case True
  then obtain b v where
    bs: "borrowings (snd (borrow s cu bid now code)) = borrowings s @ [b]" and
    st: "b_status b = Pending" and
    vs: "verifications (snd (borrow s cu bid now code)) = verifications s @ [v]" and
    v: "transaction_type v = TBorrow" and
    bk: "books (snd (borrow s cu bid now code)) = books s"
    by (auto simp: borrow_def Let_def create_transaction_verification_def
        split: option.splits if_splits)
  from v have "\<not> open_return v" by (simp add: open_return_def)
  with assms st show ?thesis
    unfolding consistent_def bs vs bk
    by (auto intro: accounted_append sound_new_borrowing sound_new_code)
qed

lemma return_book_consistent:
  assumes "consistent s"
  shows "consistent (snd (return_book s u bi now code))"
proof (cases "fst (return_book s u bi now code) = ReturnRequested")
  case False
  then have "snd (return_book s u bi now code) = s"
    by (auto simp: return_book_def split: option.splits if_splits)
  with assms show ?thesis by simp
next
  case True
  then have lt: "bi < length (borrowings s)" and st: "b_status (borrowings s ! bi) = Borrowed"
    and bs: "borrowings (snd (return_book s u bi now code)) =
               (borrowings s)[bi := (borrowings s ! bi)\<lparr>b_status := PendingReturn\<rparr>]"
    and vs: "verifications (snd (return_book s u bi now code)) =
               verifications s @ [create_transaction_verification u bi TReturn code now]"
    and bk: "books (snd (return_book s u bi now code)) = books s"
    by (auto simp: return_book_def lookup_def split: option.splits if_splits)
  have o: "open_return (create_transaction_verification u bi TReturn code now)"
    "borrowing_id (create_transaction_verification u bi TReturn code now) = bi"
    by (simp_all add: open_return_def create_transaction_verification_def)
  from st have ne: "b_status (borrowings s ! bi) \<noteq> PendingReturn" by simp
  from assms have "copies_accounted (books s)
      ((borrowings s)[bi := (borrowings s ! bi)\<lparr>b_status := PendingReturn\<rparr>])"
    unfolding consistent_def using lt st by (intro accounted_update_waiting) simp_all
  moreover from assms have "return_codes_sound
      ((borrowings s)[bi := (borrowings s ! bi)\<lparr>b_status := PendingReturn\<rparr>])
      (verifications s @ [create_transaction_verification u bi TReturn code now])"
    unfolding consistent_def using lt ne o by (intro sound_return_requested) simp_all
  ultimately show ?thesis
    unfolding consistent_def bs vs bk by simp
qed

lemma renew_same_copy:
  "b_status (snd (renew b now)) = b_status b \<and> b_book_id (snd (renew b now)) = b_book_id b"
  by (simp add: renew_def)

lemma renew_book_consistent:
  assumes "consistent s"
  shows "consistent (snd (renew_book s u bi now code))"
proof (cases "snd (renew_book s u bi now code) = s")
  case True
  with assms show ?thesis by simp
next
  case False
  then have lt: "bi < length (borrowings s)"
    and bs: "borrowings (snd (renew_book s u bi now code)) =
               (borrowings s)[bi := snd (renew (borrowings s ! bi) now)]"
    and vs: "verifications (snd (renew_book s u bi now code)) = verifications s \<or>
             verifications (snd (renew_book s u bi now code)) =
               verifications s @ [create_transaction_verification u bi TRenew code now]"
    and bk: "books (snd (renew_book s u bi now code)) = books s"
    by (auto simp: renew_book_def lookup_def Let_def split: option.splits if_splits prod.splits bool.splits)
  have o: "\<not> open_return (create_transaction_verification u bi TRenew code now)"
    by (simp add: open_return_def create_transaction_verification_def)
  from assms have acc: "copies_accounted (books s) ((borrowings s)[bi := snd (renew (borrowings s ! bi) now)])"
    unfolding consistent_def using lt renew_same_copy by (intro accounted_update_same) simp_all
  from assms have snd': "return_codes_sound ((borrowings s)[bi := snd (renew (borrowings s ! bi) now)])
      (verifications s)"
    unfolding consistent_def using renew_same_copy by (intro sound_update_same) simp_all
  from vs show ?thesis
  proof
    assume "verifications (snd (renew_book s u bi now code)) = verifications s"
    with acc snd' show ?thesis unfolding consistent_def bs bk by simp
  next
    assume "verifications (snd (renew_book s u bi now code)) =
               verifications s @ [create_transaction_verification u bi TRenew code now]"
    with acc sound_new_code[OF snd' o] show ?thesis unfolding consistent_def bs bk by simp
  qed
qed

lemma verify_consistent:
  assumes c: "consistent s"
  shows "consistent (snd (verify_transaction_code s u raw now))"
proof -
  obtain out s' where res: "verify_transaction_code s u raw now = (out, s')"
    by (cases "verify_transaction_code s u raw now")
  have "consistent s'"
  proof (cases "s' = s")
    case True
    with c show ?thesis by simp
  next
    case False
    let ?vs = "verifications s" and ?bs = "borrowings s"
    from verify_cases[OF res] False
    obtain vi where found: "find_verification s u (upper (strip raw)) = Some vi"
      and fresh: "\<not> is_verified (?vs ! vi)"
      and lt: "borrowing_id (?vs ! vi) < length ?bs"
      and fin: "(case transaction_type (?vs ! vi) of
                 TBorrow \<Rightarrow> finalize_borrow s (mark_verified s vi now) u (borrowing_id (?vs ! vi)) now
               | TReturn \<Rightarrow> finalize_return s (mark_verified s vi now) (borrowing_id (?vs ! vi)) now
               | TRenew \<Rightarrow> finalize_renew (mark_verified s vi now) (borrowing_id (?vs ! vi)) now) = (out, s')"
      by auto
    let ?v' = "(?vs ! vi)\<lparr>is_verified := True, verified_at := Some now\<rparr>"
    let ?m = "mark_verified s vi now"
    let ?bi = "borrowing_id (?vs ! vi)"
    from found have vlt: "vi < length ?vs"
      using first_index_SomeD by (fastforce simp: find_verification_def)
    have m: "books ?m = books s" "borrowings ?m = ?bs" "verifications ?m = ?vs[vi := ?v']"
      by (simp_all add: mark_verified_def)
    have closed: "\<not> open_return ?v'" by (simp add: open_return_def)
    from c have acc: "copies_accounted (books s) ?bs" and sound: "return_codes_sound ?bs ?vs"
      by (simp_all add: consistent_def)
    show ?thesis
    proof (cases "transaction_type (?vs ! vi)")
      case TBorrow
      then have other: "\<not> open_return (?vs ! vi)" by (simp add: open_return_def)
      from fin TBorrow have f: "finalize_borrow s ?m u ?bi now = (out, s')" by simp
      from finalize_borrow_cases[OF f] False
      consider (kept) "s' = ?m"
        | (taken) "b_status (?bs ! ?bi) = Pending \<or> b_status (?bs ! ?bi) = PendingVerification"
            "b_book_id (?bs ! ?bi) < length (books s)"
            "0 < available_copies (books s ! b_book_id (?bs ! ?bi))"
            "books s' = (books s)[b_book_id (?bs ! ?bi) :=
                         (books s ! b_book_id (?bs ! ?bi))
                           \<lparr>available_copies := available_copies (books s ! b_book_id (?bs ! ?bi)) - 1\<rparr>]"
            "borrowings s' = ?bs[?bi := (?bs ! ?bi)\<lparr>b_status := Borrowed, borrow_date := now\<rparr>]"
            "verifications s' = ?vs[vi := ?v']"
        unfolding m by blast
      then show ?thesis
      proof cases
        case kept
        with acc sound_mark_other[OF sound other closed] show ?thesis
          by (simp add: consistent_def m)
      next
        case taken
        have "copies_accounted (books s') (borrowings s')"
          unfolding taken(4,5) using acc lt taken(1,2,3) by (intro accounted_take) simp_all
        moreover from taken(1) have "b_status (?bs ! ?bi) \<noteq> PendingReturn" by auto
        from sound_mark_other[OF sound_update_free[OF sound this] other closed]
        have "return_codes_sound (borrowings s') (verifications s')"
          unfolding taken(5,6) .
        ultimately show ?thesis by (simp add: consistent_def)
      qed
    next
      case TReturn
      with fresh have opn: "open_return (?vs ! vi)" by (simp add: open_return_def)
      with sound vlt have waiting: "b_status (?bs ! ?bi) = PendingReturn"
        by (simp add: sound_iff)
      from fin TReturn have f: "finalize_return s ?m ?bi now = (out, s')" by simp
      from finalize_return_cases[OF f] False
      have ret: "b_book_id (?bs ! ?bi) < length (books s)"
            "books s' = (books s)[b_book_id (?bs ! ?bi) :=
                         (books s ! b_book_id (?bs ! ?bi))
                           \<lparr>available_copies := available_copies (books s ! b_book_id (?bs ! ?bi)) + 1\<rparr>]"
            "borrowings s' = ?bs[?bi := (?bs ! ?bi)
                             \<lparr>return_date := Some now,
                              fine_amount := calculate_fine ((?bs ! ?bi)\<lparr>return_date := Some now\<rparr>) now,
                              b_status := Returned\<rparr>]"
            "verifications s' = ?vs[vi := ?v']"
        unfolding m by blast+
      have "copies_accounted (books s') (borrowings s')"
        unfolding ret(2,3) using acc lt waiting ret(1) by (intro accounted_give_back) simp_all
      moreover from sound_mark_return[OF sound vlt opn closed]
      have "return_codes_sound (borrowings s') (verifications s')"
        unfolding ret(3,4) .
      ultimately show ?thesis by (simp add: consistent_def)
    next
      case TRenew
      then have other: "\<not> open_return (?vs ! vi)" by (simp add: open_return_def)
      from fin TRenew have f: "finalize_renew ?m ?bi now = (out, s')" by simp
      from finalize_renew_cases[OF f]
      have bk: "books s' = books s" and vs: "verifications s' = ?vs[vi := ?v']"
        and bs: "borrowings s' = ?bs \<or>
          borrowings s' = ?bs[?bi := (?bs ! ?bi)
                             \<lparr>due_date := due_date (?bs ! ?bi) + timedelta 14 0,
                              renewed_count := renewed_count (?bs ! ?bi) + 1\<rparr>]"
        unfolding m by blast+
      from bs show ?thesis
      proof
        assume "borrowings s' = ?bs"
        with acc sound_mark_other[OF sound other closed] bk vs show ?thesis
          by (simp add: consistent_def)
      next
        assume upd: "borrowings s' = ?bs[?bi := (?bs ! ?bi)
                             \<lparr>due_date := due_date (?bs ! ?bi) + timedelta 14 0,
                              renewed_count := renewed_count (?bs ! ?bi) + 1\<rparr>]"
        have "copies_accounted (books s') (borrowings s')"
          unfolding bk upd using acc lt by (intro accounted_update_same) simp_all
        moreover have "return_codes_sound (?bs[?bi := (?bs ! ?bi)
                             \<lparr>due_date := due_date (?bs ! ?bi) + timedelta 14 0,
                              renewed_count := renewed_count (?bs ! ?bi) + 1\<rparr>]) ?vs"
          using sound by (intro sound_update_same) simp_all
        from sound_mark_other[OF this other closed]
        have "return_codes_sound (borrowings s') (verifications s')"
          unfolding upd vs .
        ultimately show ?thesis by (simp add: consistent_def)
      qed
    qed
  qed
  with res show ?thesis by simp
qed

lemma step_consistent:
  "consistent s \<Longrightarrow> consistent (snd (step s x))"
  by (cases x)
    (simp_all add: step_def borrow_consistent return_book_consistent renew_book_consistent
      verify_consistent)

lemma run_consistent:
  "consistent s \<Longrightarrow> consistent (run s xs)"
  by (induction xs arbitrary: s) (simp_all add: step_consistent)

lemma fresh_library_consistent:
  assumes "copies_in_range s" and "borrowings s = []" and "verifications s = []"
  shows "consistent s"
proof -
  from assms(1) have "\<forall>k<length (books s).
      0 \<le> available_copies (books s ! k) \<and> available_copies (books s ! k) \<le> total_copies (books s ! k)"
    by (simp add: copies_in_range_def list_all_length)
  with assms(2,3) show ?thesis
    by (simp add: consistent_def copies_accounted_iff lent_out_def return_codes_sound_def)
qed

text \<open>
  The range \<open>0 \<le> available_copies \<le> total_copies\<close> alone is not kept by the finalisation of a
  return, which adds one to \<open>available_copies\<close> whatever \<open>total_copies\<close> is.
\<close>

theorem return_above_stock_counterexample:
  "copies_in_range miscounted \<and>
   fst (verify_transaction_code miscounted 1 ''RET001'' 2000) = VerifiedOk TReturn \<and>
   available_copies (books (snd (verify_transaction_code miscounted 1 ''RET001'' 2000)) ! 0) = 2 \<and>
   total_copies (books (snd (verify_transaction_code miscounted 1 ''RET001'' 2000)) ! 0) = 1 \<and>
   \<not> copies_in_range (snd (step miscounted (Verify 1 ''RET001'' 2000)))"
  by code_simp

lemma verify_books:
  assumes res: "verify_transaction_code s u raw now = (out, s')"
  shows "books s' = books s \<or>
         (\<exists>k<length (books s). 0 < available_copies (books s ! k) \<and>
            books s' = (books s)[k := (books s ! k)\<lparr>available_copies := available_copies (books s ! k) - 1\<rparr>]) \<or>
         (\<exists>k<length (books s).
            books s' = (books s)[k := (books s ! k)\<lparr>available_copies := available_copies (books s ! k) + 1\<rparr>])"
proof (cases "s' = s")
  case True
  then show ?thesis by simp
next
  case False
  from verify_cases[OF res] False
  obtain vi where fin: "(case transaction_type (verifications s ! vi) of
                 TBorrow \<Rightarrow> finalize_borrow s (mark_verified s vi now) u (borrowing_id (verifications s ! vi)) now
               | TReturn \<Rightarrow> finalize_return s (mark_verified s vi now) (borrowing_id (verifications s ! vi)) now
               | TRenew \<Rightarrow> finalize_renew (mark_verified s vi now) (borrowing_id (verifications s ! vi)) now) = (out, s')"
    by auto
  have m: "books (mark_verified s vi now) = books s" "borrowings (mark_verified s vi now) = borrowings s"
    by (simp_all add: mark_verified_def)
  show ?thesis
  proof (cases "transaction_type (verifications s ! vi)")
    case TBorrow
    with fin have "finalize_borrow s (mark_verified s vi now) u (borrowing_id (verifications s ! vi)) now = (out, s')"
      by simp
    from finalize_borrow_cases[OF this]
    consider "s' = s" | "s' = mark_verified s vi now"
      | "b_book_id (borrowings s ! borrowing_id (verifications s ! vi)) < length (books s)"
        "0 < available_copies (books s ! b_book_id (borrowings s ! borrowing_id (verifications s ! vi)))"
        "books s' = (books s)[b_book_id (borrowings s ! borrowing_id (verifications s ! vi)) :=
           (books s ! b_book_id (borrowings s ! borrowing_id (verifications s ! vi)))
             \<lparr>available_copies :=
                available_copies (books s ! b_book_id (borrowings s ! borrowing_id (verifications s ! vi))) - 1\<rparr>]"
      unfolding m by blast
    then show ?thesis
    proof cases
      case 1
      then show ?thesis by simp
    next
      case 2
      then show ?thesis by (simp add: m)
    next
      case 3
      then show ?thesis by blast
    qed
  next
    case TReturn
    with fin have "finalize_return s (mark_verified s vi now) (borrowing_id (verifications s ! vi)) now = (out, s')"
      by simp
    from finalize_return_cases[OF this]
    consider "s' = s"
      | "b_book_id (borrowings s ! borrowing_id (verifications s ! vi)) < length (books s)"
        "books s' = (books s)[b_book_id (borrowings s ! borrowing_id (verifications s ! vi)) :=
           (books s ! b_book_id (borrowings s ! borrowing_id (verifications s ! vi)))
             \<lparr>available_copies :=
                available_copies (books s ! b_book_id (borrowings s ! borrowing_id (verifications s ! vi))) + 1\<rparr>]"
      unfolding m by blast
    then show ?thesis
    proof cases
      case 1
      then show ?thesis by simp
    next
      case 2
      then show ?thesis by blast
    qed
  next
    case TRenew
    with fin have "finalize_renew (mark_verified s vi now) (borrowing_id (verifications s ! vi)) now = (out, s')"
      by simp
    from finalize_renew_cases[OF this] show ?thesis
      unfolding m by simp
  qed
qed

lemma step_books:
  "books (snd (step s x)) = books s \<or>
   (\<exists>k<length (books s). 0 < available_copies (books s ! k) \<and>
      books (snd (step s x)) =
        (books s)[k := (books s ! k)\<lparr>available_copies := available_copies (books s ! k) - 1\<rparr>]) \<or>
   (\<exists>k<length (books s).
      books (snd (step s x)) =
        (books s)[k := (books s ! k)\<lparr>available_copies := available_copies (books s ! k) + 1\<rparr>])"
proof (cases x)
  case (Borrow cu bid now code)
  then have "books (snd (step s x)) = books s"
    by (auto simp: step_def borrow_def Let_def split: option.splits)
  then show ?thesis by simp
next
  case (ReturnBook u bi now code)
  then have "books (snd (step s x)) = books s"
    by (auto simp: step_def return_book_def split: option.splits)
  then show ?thesis by simp
next
  case (RenewBook u bi now code)
  then have "books (snd (step s x)) = books s"
    by (auto simp: step_def renew_book_def Let_def split: option.splits prod.splits bool.splits)
  then show ?thesis by simp
next
  case (Verify u raw now)
  with verify_books[OF surjective_pairing, of s u raw now] show ?thesis
    by (simp add: step_def)
qed

lemma list_all_update:
  "list_all P xs \<Longrightarrow> P y \<Longrightarrow> list_all P (xs[i := y])"
  using set_update_subset_insert[of xs i y] by (auto simp: list_all_iff)

lemma step_nonneg:
  assumes "copies_nonneg s"
  shows "copies_nonneg (snd (step s x))"
proof -
  have pos: "0 \<le> available_copies (books s ! k)" if "k < length (books s)" for k
    using assms that by (simp add: copies_nonneg_def list_all_length)
  from step_books[of s x] show ?thesis
  proof (elim disjE exE conjE)
    assume "books (snd (step s x)) = books s"
    with assms show ?thesis by (simp add: copies_nonneg_def)
  next
    fix k
    assume "k < length (books s)" "0 < available_copies (books s ! k)"
      and eq: "books (snd (step s x)) =
        (books s)[k := (books s ! k)\<lparr>available_copies := available_copies (books s ! k) - 1\<rparr>]"
    then show ?thesis
      unfolding copies_nonneg_def eq using assms
      by (intro list_all_update) (simp_all add: copies_nonneg_def)
  next
    fix k
    assume k: "k < length (books s)"
      and eq: "books (snd (step s x)) =
        (books s)[k := (books s ! k)\<lparr>available_copies := available_copies (books s ! k) + 1\<rparr>]"
    from pos[OF k] show ?thesis
      unfolding copies_nonneg_def eq using assms
      by (intro list_all_update) (simp_all add: copies_nonneg_def)
  qed
qed

text \<open>
  C1 (amended). Call a database consistent when, for every book, \<open>available_copies\<close> is not
  negative and \<open>available_copies\<close> plus the number of the book's borrowings in status borrowed or
  pending return does not exceed \<open>total_copies\<close>, and when every unverified return code refers to
  an existing borrowing in status pending return, no two of them to the same borrowing. From a
  consistent database, \<open>0 \<le> available_copies \<le> total_copies\<close> holds for every book before and
  after every workflow step (borrow request, return request, renewal, verification of any type)
  and after any sequence of steps, and consistency itself is kept. A database with no borrowing
  and no code whose books are in range is consistent. The lower bound \<open>0 \<le> available_copies\<close>
  is kept by every step from any database.
\<close>

theorem copies_stay_in_range:
  "(consistent s \<longrightarrow>
      copies_in_range s \<and>
      copies_in_range (snd (step s x)) \<and> consistent (snd (step s x)) \<and>
      copies_in_range (run s xs) \<and> consistent (run s xs)) \<and>
   (copies_in_range s \<and> borrowings s = [] \<and> verifications s = [] \<longrightarrow> consistent s) \<and>
   (copies_nonneg s \<longrightarrow> copies_nonneg (snd (step s x)))"
proof -
  have r: "copies_in_range t" if "consistent t" for t
    using that by (simp add: consistent_def copies_accounted_in_range)
  have main: "consistent s \<longrightarrow>
      copies_in_range s \<and>
      copies_in_range (snd (step s x)) \<and> consistent (snd (step s x)) \<and>
      copies_in_range (run s xs) \<and> consistent (run s xs)"
    using r step_consistent[of s x] run_consistent[of s xs] by blast
  have init: "copies_in_range s \<and> borrowings s = [] \<and> verifications s = [] \<longrightarrow> consistent s"
    using fresh_library_consistent by blast
  have low: "copies_nonneg s \<longrightarrow> copies_nonneg (snd (step s x))"
    using step_nonneg by blast
  show ?thesis by (rule conjI[OF main conjI[OF init low]])
qed

theorem copies_stay_in_range_witness:
  "(copies_in_range one_copy \<and>
    copies_in_range (snd (step one_copy (Borrow (reader 1) 0 1000 ''ABC123''))) \<and>
    consistent (snd (step one_copy (Borrow (reader 1) 0 1000 ''ABC123''))) \<and>
    copies_in_range (run one_copy
       [Borrow (reader 1) 0 1000 ''ABC123'', Verify 1 ''abc123'' 2000,
        ReturnBook 1 0 3000 ''RET001'', Verify 1 ''ret001'' 4000]) \<and>
    consistent (run one_copy
       [Borrow (reader 1) 0 1000 ''ABC123'', Verify 1 ''abc123'' 2000,
        ReturnBook 1 0 3000 ''RET001'', Verify 1 ''ret001'' 4000])) \<and>
   available_copies (books (run one_copy
       [Borrow (reader 1) 0 1000 ''ABC123'', Verify 1 ''abc123'' 2000]) ! 0) = 0 \<and>
   available_copies (books (run one_copy
       [Borrow (reader 1) 0 1000 ''ABC123'', Verify 1 ''abc123'' 2000,
        ReturnBook 1 0 3000 ''RET001'', Verify 1 ''ret001'' 4000]) ! 0) = 1"
proof -
  have start: "copies_in_range one_copy \<and> borrowings one_copy = [] \<and> verifications one_copy = []"
    by code_simp
  note t = copies_stay_in_range[of one_copy "Borrow (reader 1) 0 1000 ''ABC123''"
      "[Borrow (reader 1) 0 1000 ''ABC123'', Verify 1 ''abc123'' 2000,
        ReturnBook 1 0 3000 ''RET001'', Verify 1 ''ret001'' 4000]"]
  note c = t[THEN conjunct2, THEN conjunct1, THEN mp, OF start]
  note kept = t[THEN conjunct1, THEN mp, OF c]
  have counts: "available_copies (books (run one_copy
       [Borrow (reader 1) 0 1000 ''ABC123'', Verify 1 ''abc123'' 2000]) ! 0) = 0 \<and>
   available_copies (books (run one_copy
       [Borrow (reader 1) 0 1000 ''ABC123'', Verify 1 ''abc123'' 2000,
        ReturnBook 1 0 3000 ''RET001'', Verify 1 ''ret001'' 4000]) ! 0) = 1"
    by code_simp
  show ?thesis by (rule conjI[OF kept counts])
qed

end
